theory Spec2Isabelle
  imports Complex_Main "HOL-Library.Sublist"
begin

section \<open>Python values, errors and string operations\<close>

text \<open>
  The development embeds \<^verbatim>\<open>check_translation.py\<close>. Exceptions are values: a function
  that can raise returns \<open>py_error + 'a\<close>, with \<open>Inl\<close> the exception that escapes it.
  \<open>SystemExit n\<close> is \<^verbatim>\<open>sys.exit(n)\<close>. Output written by \<^verbatim>\<open>print\<close> and
  \<^verbatim>\<open>self.log\<close> is not part of the model; an expression evaluated to build a log
  line is, where it can raise.
\<close>

datatype py_error =
    KeyError string
  | TypeError
  | AttributeError
  | OSError
  | YAMLError
  | ClientError string
  | SystemExit nat
  | KeyboardInterrupt

text \<open>
  What \<^verbatim>\<open>except Exception\<close> catches: \<^verbatim>\<open>SystemExit\<close> and
  \<^verbatim>\<open>KeyboardInterrupt\<close> derive from \<^verbatim>\<open>BaseException\<close> only.
\<close>

fun is_exception :: "py_error \<Rightarrow> bool" where
  "is_exception (SystemExit n) = False"
| "is_exception KeyboardInterrupt = False"
| "is_exception (KeyError k) = True"
| "is_exception TypeError = True"
| "is_exception AttributeError = True"
| "is_exception OSError = True"
| "is_exception YAMLError = True"
| "is_exception (ClientError m) = True"

text \<open>
  \<^verbatim>\<open>str.replace(old, new)\<close>: every non-overlapping occurrence of \<open>old\<close>, found from
  the left, is replaced. With an empty \<open>old\<close>, \<open>new\<close> is put before every character and
  at the end.
\<close>

fun str_replace :: "string \<Rightarrow> string \<Rightarrow> string \<Rightarrow> string" where
  "str_replace [] new s = new @ concat (map (\<lambda>c. c # new) s)"
| "str_replace (a # as) new [] = []"
| "str_replace (a # as) new (c # cs) =
     (if prefix (a # as) (c # cs)
      then new @ str_replace (a # as) new (drop (length as) cs)
      else c # str_replace (a # as) new cs)"

text \<open>\<^verbatim>\<open>map_file_path\<close>, lines 178--186.\<close>

definition map_file_path :: "string \<Rightarrow> bool \<Rightarrow> string" where
  "map_file_path file_path is_local2upstream =
     (if is_local2upstream then
        (let mapped_file_path = str_replace ''sources/syzkaller/'' ''docs/'' file_path
         in if prefix ''./'' mapped_file_path then drop 2 mapped_file_path
            else mapped_file_path)
      else str_replace ''docs/'' ''sources/syzkaller/'' file_path)"

text \<open>\<^verbatim>\<open>os.path.join(a, b)\<close> of \<^verbatim>\<open>posixpath\<close>, for two components.\<close>

definition path_join :: "string \<Rightarrow> string \<Rightarrow> string" where
  "path_join a b =
     (if prefix ''/'' b then b
      else if a = [] \<or> suffix ''/'' a then a @ b
      else a @ ''/'' @ b)"

text \<open>\<^verbatim>\<open>any(s.endswith(ext) for ext in exts)\<close>.\<close>

definition endswith_any :: "string \<Rightarrow> string list \<Rightarrow> bool" where
  "endswith_any s exts = list_ex (\<lambda>ext. suffix ext s) exts"

section \<open>The cache document\<close>

text \<open>
  A Python \<^verbatim>\<open>dict\<close> is an association list in insertion order: assigning to a key
  that is present keeps its position, assigning to a new key appends it.
\<close>

fun dict_set :: "'k \<Rightarrow> 'v \<Rightarrow> ('k \<times> 'v) list \<Rightarrow> ('k \<times> 'v) list" where
  "dict_set k v [] = [(k, v)]"
| "dict_set k v ((k', v') # d) =
     (if k' = k then (k, v) # d else (k', v') # dict_set k v d)"

definition dict_keys :: "('k \<times> 'v) list \<Rightarrow> 'k list" where
  "dict_keys d = map fst d"

text \<open>
  A commit pair is \<^verbatim>\<open>[sha, date_string]\<close>, either component \<^verbatim>\<open>None\<close> (JSON null).
  The values stored in a namespace are the shapes the program writes: the
  timestamp under \<^verbatim>\<open>cache_time\<close>, a directory listing, the record
  \<^verbatim>\<open>{"collected": [..], "latest": [..]}\<close> of one local file, and that record while
  it is being derived: \<open>Partial None\<close> is \<^verbatim>\<open>{"collected": {}, "latest": {}}\<close> of line
  110, \<open>Partial (Some p)\<close> is \<^verbatim>\<open>{"collected": p, "latest": {}}\<close> after line 121.
  Timestamps of
  \<^verbatim>\<open>time()\<close> are real numbers here (floating-point rounding is not modelled).
  The cache file is read without any validation, so a key can hold any of the shapes,
  and \<^verbatim>\<open>cache_time\<close> can be missing.
\<close>

type_synonym commit_pair = "string option \<times> string option"

datatype payload =
    Time real
  | Listing "string list"
  | CommitRecord (collected: commit_pair) (latest: commit_pair)
  | Partial "commit_pair option"

type_synonym namespace = "(string \<times> payload) list"
type_synonym cache_document = "(string \<times> namespace) list"

text \<open>The cache file: absent, not parseable as JSON, or holding a document.\<close>

datatype cache_file = Absent | Corrupt | Document cache_document

section \<open>The remote repository and the local environment\<close>

type_synonym datetime = int

text \<open>
  An entry returned by \<^verbatim>\<open>repo.get_contents\<close>: a file (any type other than
  \<^verbatim>\<open>'dir'\<close>) with its path, a directory with its path and the entries that
  \<^verbatim>\<open>get_contents\<close> returns for it, or a directory for which that request raises.
\<close>

datatype content =
    File string
  | Dir string "content list"
  | Unlistable string py_error

text \<open>Requests sent to the GitHub client, in order.\<close>

datatype call =
    GetRepo
  | GetContents string
  | GetCommits string "datetime option"
  | GetCommit string

text \<open>
  The parsed front matter, as far as the program looks at it: a mapping, whose values are
  given by their \<^verbatim>\<open>str()\<close> rendering, or any other YAML document.
\<close>

datatype yaml = YMapping "string \<Rightarrow> string option" | YOther

text \<open>
  Everything the program reads from outside: library calls, the file system, the clock
  and the GitHub client.
  \<^item> \<open>read_text\<close>: \<^verbatim>\<open>open(md_file, 'r', encoding='utf-8').read()\<close>;
  \<^item> \<open>frontmatter_match\<close>: group 1 of
    \<^verbatim>\<open>re.match(r'^---\s*\n(.*?)\n---\s*\n', content, re.DOTALL)\<close>, \<open>None\<close> for no match;
  \<^item> \<open>yaml_safe_load\<close>: \<^verbatim>\<open>yaml.safe_load\<close>;
  \<^item> \<open>strptime\<close>: \<^verbatim>\<open>datetime.strptime(s, '%Y%m%d')\<close>, \<open>None\<close> where it raises;
  \<^item> \<open>datetime_now\<close>: the reading of \<^verbatim>\<open>datetime.now()\<close> taken while the given local
    file is processed;
  \<^item> \<open>isfile\<close>: \<^verbatim>\<open>os.path.isfile\<close>; \<open>walk\<close>: the \<open>(root, files)\<close> pairs of
    \<^verbatim>\<open>os.walk\<close>, in order;
  \<^item> \<open>get_repo\<close>: the exception raised by \<^verbatim>\<open>client.get_repo\<close>, if any;
  \<^item> \<open>get_contents\<close>: \<^verbatim>\<open>repo.get_contents\<close> of the target path;
  \<^item> \<open>get_commits\<close>: the shas of \<^verbatim>\<open>repo.get_commits(path=.., until=..)\<close>, newest
    first;
  \<^item> \<open>author_date\<close>: \<^verbatim>\<open>repo.get_commit(sha).commit.author.date\<close>, given by its
    \<^verbatim>\<open>strftime('%Y-%m-%d %H:%M:%S')\<close> rendering, \<open>None\<close> when the date is
    \<^verbatim>\<open>None\<close>;
  \<^item> \<open>writable\<close>: whether the cache file can be written.
\<close>

record world =
  read_text :: "string \<Rightarrow> py_error + string"
  frontmatter_match :: "string \<Rightarrow> string option"
  yaml_safe_load :: "string \<Rightarrow> py_error + yaml"
  strptime :: "string \<Rightarrow> datetime option"
  datetime_now :: "string \<Rightarrow> datetime"
  isfile :: "string \<Rightarrow> bool"
  walk :: "string \<Rightarrow> (string \<times> string list) list"
  get_repo :: "py_error option"
  get_contents :: "string \<Rightarrow> py_error + content list"
  get_commits :: "string \<Rightarrow> datetime option \<Rightarrow> py_error + string list"
  author_date :: "string \<Rightarrow> py_error + string option"
  writable :: bool

section \<open>GithubAnalyzer\<close>

text \<open>
  The state of the analyzer object and of the cache file: \<open>cache\<close> is
  \<^verbatim>\<open>self._cache\<close>, \<open>repo\<close> says whether \<^verbatim>\<open>self.repo\<close> is set, \<open>disk\<close> is the
  cache file, \<open>calls\<close> the requests sent so far.
\<close>

record analyzer =
  cache :: cache_document
  repo :: bool
  disk :: cache_file
  calls :: "call list"

definition cache_ttl :: real where
  "cache_ttl = 86400 * 3"

text \<open>\<^verbatim>\<open>_load_cache\<close>, lines 40--49, and the constructor.\<close>

definition load_cache :: "cache_file \<Rightarrow> cache_document" where
  "load_cache f = (case f of Absent \<Rightarrow> [] | Corrupt \<Rightarrow> [] | Document d \<Rightarrow> d)"

definition new_analyzer :: "cache_file \<Rightarrow> analyzer" where
  "new_analyzer f = \<lparr>cache = load_cache f, repo = False, disk = f, calls = []\<rparr>"

text \<open>\<^verbatim>\<open>_save_cache\<close>, lines 51--57: a failed write is logged and swallowed.\<close>

definition save_cache :: "world \<Rightarrow> analyzer \<Rightarrow> analyzer" where
  "save_cache w a = (if writable w then a\<lparr>disk := Document (cache a)\<rparr> else a)"

text \<open>\<^verbatim>\<open>self._cache.get(cache_type, {})\<close>.\<close>

definition cache_get :: "cache_document \<Rightarrow> string \<Rightarrow> namespace" where
  "cache_get c cache_type = (case map_of c cache_type of None \<Rightarrow> [] | Some ns \<Rightarrow> ns)"

text \<open>
  \<^verbatim>\<open>current_time - cached_time < self._cache_ttl\<close>: the subtraction raises
  \<^verbatim>\<open>TypeError\<close> unless the cached value is a number.
\<close>

fun alive :: "real \<Rightarrow> payload \<Rightarrow> py_error + bool" where
  "alive current_time (Time cached_time) = Inr (current_time - cached_time < cache_ttl)"
| "alive current_time (Listing fs) = Inl TypeError"
| "alive current_time (CommitRecord c l) = Inl TypeError"
| "alive current_time (Partial c) = Inl TypeError"

text \<open>
  The \<^verbatim>\<open>if self.repo is None\<close> block (lines 74--76 and 141--143): the outcome is
  the exception raised, if any, and the new state.
\<close>

definition ensure_repo :: "world \<Rightarrow> analyzer \<Rightarrow> py_error option \<times> analyzer" where
  "ensure_repo w a =
     (if repo a then (None, a)
      else (case get_repo w of
              Some e \<Rightarrow> (Some e, a\<lparr>calls := calls a @ [GetRepo]\<rparr>)
            | None \<Rightarrow> (None, a\<lparr>repo := True, calls := calls a @ [GetRepo]\<rparr>)))"

text \<open>
  The \<^verbatim>\<open>while contents\<close> loop, lines 79--87: \<open>contents\<close> is the queue, \<open>files\<close>
  the paths collected so far, \<open>cs\<close> the requests sent.
\<close>

function list_loop ::
  "string list \<Rightarrow> content list \<Rightarrow> string list \<Rightarrow> call list
     \<Rightarrow> py_error + (string list \<times> call list)" where
  "list_loop exclude_dirs [] files cs = Inr (files, cs)"
| "list_loop exclude_dirs (File p # contents) files cs =
     list_loop exclude_dirs contents (files @ [p]) cs"
| "list_loop exclude_dirs (Dir p children # contents) files cs =
     (if p \<in> set exclude_dirs then list_loop exclude_dirs contents files cs
      else list_loop exclude_dirs (contents @ children) files (cs @ [GetContents p]))"
| "list_loop exclude_dirs (Unlistable p e # contents) files cs =
     (if p \<in> set exclude_dirs then list_loop exclude_dirs contents files cs
      else Inl e)"
  by pat_completeness auto
termination
  by (relation "measure (\<lambda>(ex, contents, files, cs). size_list size contents)") auto

text \<open>
  \<^verbatim>\<open>str([target_path, exclude_dirs])\<close> for strings whose \<^verbatim>\<open>repr\<close> is the string
  between single quotes (no quote, backslash or control character), as the paths
  passed by this program are.
\<close>

fun comma_join :: "string list \<Rightarrow> string" where
  "comma_join [] = []"
| "comma_join [x] = x"
| "comma_join (x # y # ys) = x @ '', '' @ comma_join (y # ys)"

definition py_repr :: "string \<Rightarrow> string" where
  "py_repr s = [CHR 0x27] @ s @ [CHR 0x27]"

definition cache_key_of :: "string \<Rightarrow> string list \<Rightarrow> string" where
  "cache_key_of target_path exclude_dirs =
     ''['' @ py_repr target_path @ '', ['' @ comma_join (map py_repr exclude_dirs) @ '']]''"

text \<open>Lines 72--94: the listing is fetched, stored and saved.\<close>

definition fetch_files ::
  "world \<Rightarrow> real \<Rightarrow> analyzer \<Rightarrow> string \<Rightarrow> string list \<Rightarrow> py_error + (payload \<times> analyzer)" where
  "fetch_files w current_time a target_path exclude_dirs =
     (case ensure_repo w a of
        (Some e, a1) \<Rightarrow> Inl e
      | (None, a1) \<Rightarrow>
          (case get_contents w target_path of
             Inl e \<Rightarrow> Inl e
           | Inr contents \<Rightarrow>
               (case list_loop exclude_dirs contents [] (calls a1 @ [GetContents target_path]) of
                  Inl e \<Rightarrow> Inl e
                | Inr (files, cs) \<Rightarrow>
                    (let ns1 = dict_set ''cache_time'' (Time current_time) (cache_get (cache a1) ''files'');
                         c1 = dict_set ''files'' ns1 (cache a1);
                         ns2 = dict_set (cache_key_of target_path exclude_dirs) (Listing files)
                                 (cache_get c1 ''files'');
                         c2 = dict_set ''files'' ns2 c1
                     in Inr (Listing files, save_cache w (a1\<lparr>cache := c2, calls := cs\<rparr>))))))"

text \<open>\<^verbatim>\<open>get_repo_files_recursively\<close>, lines 59--94.\<close>

definition get_repo_files_recursively ::
  "world \<Rightarrow> real \<Rightarrow> analyzer \<Rightarrow> string \<Rightarrow> string list \<Rightarrow> py_error + (payload \<times> analyzer)" where
  "get_repo_files_recursively w current_time a target_path exclude_dirs =
     (let cache_type = ''files'';
          cache_key = cache_key_of target_path exclude_dirs;
          ns = cache_get (cache a) cache_type
      in case map_of ns cache_key of
           None \<Rightarrow> fetch_files w current_time a target_path exclude_dirs
         | Some cached_files \<Rightarrow>
             (case map_of ns ''cache_time'' of
                None \<Rightarrow> Inl (KeyError ''cache_time'')
              | Some cached_time \<Rightarrow>
                  (case alive current_time cached_time of
                     Inl e \<Rightarrow> Inl e
                   | Inr True \<Rightarrow> Inr (cached_files, a)
                   | Inr False \<Rightarrow> fetch_files w current_time a target_path exclude_dirs)))"

text \<open>
  The body of the \<^verbatim>\<open>try\<close> of \<^verbatim>\<open>get_file_commit_and_date\<close>, lines 141--150,
  with the exception it raises, if any, and the new state. \<open>until_date\<close> is optional, as
  in the signature. \<open>latest_commit\<close> is \<^verbatim>\<open>next(iter(commits), None)\<close>;
  \<open>commit_date_str\<close> is \<^verbatim>\<open>None\<close> when there is no commit or the commit has no
  date. Building the log line of line 149 evaluates \<^verbatim>\<open>until_date.strftime\<close> and
  \<^verbatim>\<open>latest_commit.sha\<close>, each of which raises on \<^verbatim>\<open>None\<close>.
\<close>

definition commit_lookup ::
  "world \<Rightarrow> analyzer \<Rightarrow> string \<Rightarrow> datetime option \<Rightarrow> (py_error + commit_pair) \<times> analyzer" where
  "commit_lookup w a upstream_file_path until_date =
     (case ensure_repo w a of
        (Some e, a1) \<Rightarrow> (Inl e, a1)
      | (None, a1) \<Rightarrow>
          (let a2 = a1\<lparr>calls := calls a1 @ [GetCommits upstream_file_path until_date]\<rparr>
           in case get_commits w upstream_file_path until_date of
                Inl e \<Rightarrow> (Inl e, a2)
              | Inr commits \<Rightarrow>
                  (case (case commits of [] \<Rightarrow> None | c # _ \<Rightarrow> Some c) of
                     None \<Rightarrow> (Inl AttributeError, a2)
                   | Some sha \<Rightarrow>
                       (let a3 = a2\<lparr>calls := calls a2 @ [GetCommit sha]\<rparr>
                        in case author_date w sha of
                             Inl e \<Rightarrow> (Inl e, a3)
                           | Inr commit_date_str \<Rightarrow>
                               (case until_date of
                                  None \<Rightarrow> (Inl AttributeError, a3)
                                | Some d \<Rightarrow> (Inr (Some sha, commit_date_str), a3))))))"

text \<open>
  \<^verbatim>\<open>get_file_commit_and_date\<close>, lines 138--153. \<^verbatim>\<open>except Exception\<close> turns an
  exception into the null pair, after building the log line of line 152, which
  evaluates \<^verbatim>\<open>until_date.strftime\<close> and so raises in the handler when
  \<open>until_date\<close> is \<^verbatim>\<open>None\<close>. What is not an \<^verbatim>\<open>Exception\<close> escapes.
\<close>

definition get_file_commit_and_date ::
  "world \<Rightarrow> analyzer \<Rightarrow> string \<Rightarrow> datetime option \<Rightarrow> (py_error + commit_pair) \<times> analyzer" where
  "get_file_commit_and_date w a upstream_file_path until_date =
     (case commit_lookup w a upstream_file_path until_date of
        (Inr pair, a') \<Rightarrow> (Inr pair, a')
      | (Inl e, a') \<Rightarrow>
          (if is_exception e
           then (case until_date of
                   None \<Rightarrow> (Inl AttributeError, a')
                 | Some d \<Rightarrow> (Inr (None, None), a'))
           else (Inl e, a')))"

section \<open>Front matter\<close>

text \<open>
  \<^verbatim>\<open>extract_frontmatter\<close>, lines 159--175. Reading the file is outside any
  \<^verbatim>\<open>try\<close>; of the exceptions of \<^verbatim>\<open>yaml.safe_load\<close> only \<^verbatim>\<open>YAMLError\<close> is caught.
\<close>

definition extract_frontmatter :: "world \<Rightarrow> string \<Rightarrow> py_error + yaml option" where
  "extract_frontmatter w md_file =
     (case read_text w md_file of
        Inl e \<Rightarrow> Inl e
      | Inr content \<Rightarrow>
          (case frontmatter_match w content of
             None \<Rightarrow> Inr None
           | Some block \<Rightarrow>
               (case yaml_safe_load w block of
                  Inl YAMLError \<Rightarrow> Inr None
                | Inl e \<Rightarrow> Inl e
                | Inr y \<Rightarrow> Inr (Some y))))"

text \<open>
  The \<^verbatim>\<open>try\<close> block of lines 113--115: \<open>None\<close> when it raises, which it does
  when the header is \<^verbatim>\<open>None\<close> or not a mapping, has no \<^verbatim>\<open>collected_date\<close>, or the
  date does not parse.
\<close>

definition parse_collected_date :: "world \<Rightarrow> yaml option \<Rightarrow> datetime option" where
  "parse_collected_date w yaml_header =
     (case yaml_header of
        None \<Rightarrow> None
      | Some YOther \<Rightarrow> None
      | Some (YMapping m) \<Rightarrow>
          (case m ''collected_date'' of
             None \<Rightarrow> None
           | Some collected_date_str \<Rightarrow> strptime w collected_date_str))"

text \<open>Lines 112--118: the collection date of a local file, or \<^verbatim>\<open>sys.exit(1)\<close>.\<close>

definition read_collected_date :: "world \<Rightarrow> string \<Rightarrow> py_error + datetime" where
  "read_collected_date w local_file_path =
     (case extract_frontmatter w local_file_path of
        Inl e \<Rightarrow> Inl e
      | Inr yaml_header \<Rightarrow>
          (case parse_collected_date w yaml_header of
             None \<Rightarrow> Inl (SystemExit 1)
           | Some collected_date \<Rightarrow> Inr collected_date))"

section \<open>The commits namespace\<close>

text \<open>
  \<^verbatim>\<open>commits[k] = v\<close> inside the batch. Line 101 returns the dict held by
  \<^verbatim>\<open>self._cache\<close> when the namespace is present, so every assignment is then seen in
  \<^verbatim>\<open>self._cache\<close> at once (\<open>aliased\<close>); otherwise \<open>commits\<close> is a fresh dict that
  is attached by line 131 only.
\<close>

definition store_record ::
  "bool \<Rightarrow> string \<Rightarrow> payload \<Rightarrow> namespace \<times> analyzer \<Rightarrow> namespace \<times> analyzer" where
  "store_record aliased k v s =
     (case s of (commits, a) \<Rightarrow>
        (let commits' = dict_set k v commits
         in (commits',
             if aliased then a\<lparr>cache := dict_set ''commits'' commits' (cache a)\<rparr> else a)))"

text \<open>
  Lines 110--125 for one local file. An exception that escapes comes with the state in
  which it leaves the analyzer.
\<close>

definition derive_record ::
  "world \<Rightarrow> bool \<Rightarrow> string \<Rightarrow> namespace \<times> analyzer
     \<Rightarrow> (py_error \<times> analyzer) + (namespace \<times> analyzer)" where
  "derive_record w aliased local_file_path s =
     (case store_record aliased local_file_path (Partial None) s of
        (commits1, a1) \<Rightarrow>
          (case read_collected_date w local_file_path of
             Inl e \<Rightarrow> Inl (e, a1)
           | Inr collected_date \<Rightarrow>
               (let upstream_file_path = map_file_path local_file_path True
                in case get_file_commit_and_date w a1 upstream_file_path (Some collected_date) of
                     (Inl e, a2) \<Rightarrow> Inl (e, a2)
                   | (Inr collected_pair, a2) \<Rightarrow>
                       (case store_record aliased local_file_path
                               (Partial (Some collected_pair)) (commits1, a2) of
                          (commits2, a3) \<Rightarrow>
                            (let today_date = datetime_now w local_file_path
                             in case get_file_commit_and_date w a3 upstream_file_path
                                       (Some today_date) of
                                  (Inl e, a4) \<Rightarrow> Inl (e, a4)
                                | (Inr latest_pair, a4) \<Rightarrow>
                                    Inr (store_record aliased local_file_path
                                           (CommitRecord collected_pair latest_pair)
                                           (commits2, a4)))))))"

text \<open>
  The \<^verbatim>\<open>for\<close> loop of lines 106--125. \<open>cached_time\<close> was read before the loop;
  the loop state is the namespace, the flag \<open>changed\<close> and the analyzer.
\<close>

fun commits_loop ::
  "world \<Rightarrow> real \<Rightarrow> payload \<Rightarrow> bool \<Rightarrow> string list \<Rightarrow> namespace \<times> bool \<times> analyzer
     \<Rightarrow> (py_error \<times> analyzer) + (namespace \<times> bool \<times> analyzer)" where
  "commits_loop w current_time cached_time aliased [] s = Inr s"
| "commits_loop w current_time cached_time aliased (local_file_path # rest) (commits, changed, a) =
     (case (if local_file_path \<in> set (dict_keys commits)
            then alive current_time cached_time else Inr False) of
        Inl e \<Rightarrow> Inl (e, a)
      | Inr True \<Rightarrow>
          commits_loop w current_time cached_time aliased rest (commits, changed, a)
      | Inr False \<Rightarrow>
          (case derive_record w aliased local_file_path (commits, a) of
             Inl ea \<Rightarrow> Inl ea
           | Inr (commits', a') \<Rightarrow>
               commits_loop w current_time cached_time aliased rest (commits', True, a')))"

text \<open>The value of \<^verbatim>\<open>commits.get('cache_time', 0)\<close>, line 103.\<close>

definition cached_time_of :: "namespace \<Rightarrow> payload" where
  "cached_time_of commits = (case map_of commits ''cache_time'' of None \<Rightarrow> Time 0 | Some t \<Rightarrow> t)"

text \<open>\<^verbatim>\<open>get_files_commits_and_dates\<close>, lines 96--135.\<close>

definition get_files_commits_and_dates ::
  "world \<Rightarrow> real \<Rightarrow> analyzer \<Rightarrow> string list
     \<Rightarrow> (py_error \<times> analyzer) + (namespace \<times> analyzer)" where
  "get_files_commits_and_dates w current_time a local_file_list =
     (let cache_type = ''commits'';
          commits = cache_get (cache a) cache_type;
          aliased = (map_of (cache a) cache_type \<noteq> None);
          cached_time = cached_time_of commits
      in case commits_loop w current_time cached_time aliased local_file_list
                (commits, False, a) of
           Inl ea \<Rightarrow> Inl ea
         | Inr (commits', changed, a') \<Rightarrow>
             (if changed then
                (let commits'' = dict_set ''cache_time'' (Time current_time) commits'
                 in Inr (commits'',
                      save_cache w (a'\<lparr>cache := dict_set cache_type commits'' (cache a')\<rparr>)))
              else Inr (commits', a')))"

section \<open>The two checks\<close>

definition no_need_to_collect :: "string list" where
  "no_need_to_collect = [''.drawio'', ''.patch'', ''.sh'', ''.py'']"

text \<open>
  What \<^verbatim>\<open>for x in v\<close> iterates over, after \<^verbatim>\<open>len(v)\<close> was taken: the elements of a
  list, the keys of a dict; a number has no length.
\<close>

fun iterate :: "payload \<Rightarrow> py_error + string list" where
  "iterate (Listing fs) = Inr fs"
| "iterate (CommitRecord c l) = Inr [''collected'', ''latest'']"
| "iterate (Partial c) = Inr [''collected'', ''latest'']"
| "iterate (Time t) = Inl TypeError"

text \<open>The condition of line 200.\<close>

definition uncollected :: "world \<Rightarrow> string \<Rightarrow> string \<Rightarrow> bool" where
  "uncollected w hctt_proj_path upstream_file_path =
     (let local_file_path = path_join hctt_proj_path (map_file_path upstream_file_path False)
      in \<not> isfile w local_file_path \<and> \<not> endswith_any upstream_file_path no_need_to_collect)"

text \<open>\<^verbatim>\<open>check_collection\<close>, lines 189--203.\<close>

definition check_collection ::
  "world \<Rightarrow> real \<Rightarrow> analyzer \<Rightarrow> string \<Rightarrow> py_error + (string list \<times> analyzer)" where
  "check_collection w current_time a hctt_proj_path =
     (case get_repo_files_recursively w current_time a ''docs/'' [''docs/translations''] of
        Inl e \<Rightarrow> Inl e
      | Inr (v, a') \<Rightarrow>
          (case iterate v of
             Inl e \<Rightarrow> Inl e
           | Inr upstream_file_list \<Rightarrow>
               Inr (filter (uncollected w hctt_proj_path) upstream_file_list, a')))"

text \<open>Line 225: plain inequality of the two shas.\<close>

definition outdated :: "commit_pair \<Rightarrow> commit_pair \<Rightarrow> bool" where
  "outdated collected_pair latest_pair = (fst collected_pair \<noteq> fst latest_pair)"

text \<open>
  The loop of lines 220--227 over \<^verbatim>\<open>commits.items()\<close>; subscripting a value that is
  not a record raises, and so does \<^verbatim>\<open>[0]\<close> on the empty dict of an unfinished
  record.
\<close>

fun update_loop :: "namespace \<Rightarrow> string list \<Rightarrow> py_error + string list" where
  "update_loop [] need_update_files = Inr need_update_files"
| "update_loop ((local_file_path, commit_info) # items) need_update_files =
     (if local_file_path = ''cache_time'' then update_loop items need_update_files
      else (case commit_info of
              CommitRecord collected_pair latest_pair \<Rightarrow>
                update_loop items
                  (if outdated collected_pair latest_pair
                   then need_update_files @ [local_file_path] else need_update_files)
            | Time t \<Rightarrow> Inl TypeError
            | Listing fs \<Rightarrow> Inl TypeError
            | Partial c \<Rightarrow> Inl (KeyError ''0'')))"

definition tranlatable_file_suffix :: "string list" where
  "tranlatable_file_suffix = [''.md'', ''.txt'']"

text \<open>Lines 211--215: the local files with a translatable suffix, in walk order.\<close>

definition scan_local :: "world \<Rightarrow> string \<Rightarrow> string list" where
  "scan_local w sources_syzkaller =
     concat (map (\<lambda>(root, files).
                map (path_join root) (filter (\<lambda>fn. endswith_any fn tranlatable_file_suffix) files))
             (walk w sources_syzkaller))"

text \<open>\<^verbatim>\<open>check_update\<close>, lines 206--228.\<close>

definition check_update ::
  "world \<Rightarrow> real \<Rightarrow> analyzer \<Rightarrow> string
     \<Rightarrow> (py_error \<times> analyzer) + (string list \<times> analyzer)" where
  "check_update w current_time a sources_syzkaller =
     (let local_file_list = scan_local w sources_syzkaller
      in case get_files_commits_and_dates w current_time a local_file_list of
           Inl ea \<Rightarrow> Inl ea
         | Inr (commits, a') \<Rightarrow>
             (case update_loop commits [] of
                Inl e \<Rightarrow> Inl (e, a')
              | Inr need_update_files \<Rightarrow> Inr (need_update_files, a')))"

section \<open>Notions used in the statements\<close>

text \<open>A stored value is stale when it is a record whose two shas differ.\<close>

definition is_stale :: "payload \<Rightarrow> bool" where
  "is_stale v = (case v of CommitRecord c l \<Rightarrow> outdated c l | Time t \<Rightarrow> False
                 | Listing fs \<Rightarrow> False | Partial c \<Rightarrow> False)"

text \<open>
  The condition under which the loop of lines 106--125 derives the record of a requested
  path again: the path is not a key of the namespace, or the time elapsed since
  \<open>cached_time\<close> is not less than the time to live.
\<close>

definition needs_refresh :: "real \<Rightarrow> real \<Rightarrow> namespace \<Rightarrow> string \<Rightarrow> bool" where
  "needs_refresh current_time cached_time commits local_file_path =
     (local_file_path \<notin> set (dict_keys commits) \<or> \<not> current_time - cached_time < cache_ttl)"

text \<open>
  A value is derived for a local path when it is the record of the two lookups of lines
  120 and 124, made for the upstream path at the collection date and at the current date.
\<close>

definition derived_for :: "world \<Rightarrow> string \<Rightarrow> payload \<Rightarrow> bool" where
  "derived_for w local_file_path v =
     (\<exists>collected_date a1 a2 collected_pair latest_pair.
        read_collected_date w local_file_path = Inr collected_date
        \<and> fst (get_file_commit_and_date w a1 (map_file_path local_file_path True)
                 (Some collected_date)) = Inr collected_pair
        \<and> fst (get_file_commit_and_date w a2 (map_file_path local_file_path True)
                 (Some (datetime_now w local_file_path))) = Inr latest_pair
        \<and> v = CommitRecord collected_pair latest_pair)"

text \<open>
  The analyzer after line 110 has put the empty placeholder of a local file in the
  namespace.
\<close>

definition with_placeholder :: "bool \<Rightarrow> string \<Rightarrow> namespace \<Rightarrow> analyzer \<Rightarrow> analyzer" where
  "with_placeholder aliased local_file_path commits a =
     snd (store_record aliased local_file_path (Partial None) (commits, a))"

text \<open>The elements of a list in the order of their first occurrence.\<close>

fun first_occurrences :: "'a list \<Rightarrow> 'a list" where
  "first_occurrences [] = []"
| "first_occurrences (x # xs) = x # first_occurrences (filter (\<lambda>y. y \<noteq> x) xs)"

section \<open>A small environment\<close>

text \<open>
  One local tree, one upstream tree and one commit history, used to evaluate the
  functions on concrete inputs. Instants are numbers that grow with time, written here
  as \<open>yyyymmdd\<close>.
\<close>

definition setup_text :: string where
  "setup_text = ''---'' @ [CHR 0x0A] @ ''collected_date: 20250101'' @ [CHR 0x0A] @ ''---''
     @ [CHR 0x0A] @ ''# Setup''"

definition demo_world :: world where
  "demo_world = \<lparr>
     read_text = (\<lambda>p. if p = ''sources/syzkaller/setup.md'' then Inr setup_text
                      else if p = ''sources/syzkaller/broken.md'' then Inr ''# No front matter''
                      else Inl OSError),
     frontmatter_match = (\<lambda>c. if c = setup_text then Some ''collected_date: 20250101'' else None),
     yaml_safe_load = (\<lambda>b. if b = ''collected_date: 20250101''
                           then Inr (YMapping [''collected_date'' \<mapsto> ''20250101''])
                           else Inl YAMLError),
     strptime = (\<lambda>s. if s = ''20250101'' then Some 20250101 else None),
     datetime_now = (\<lambda>p. 20260101),
     isfile = (\<lambda>p. p = ''./sources/syzkaller/setup.md''),
     walk = (\<lambda>r. if r = ''sources/syzkaller''
                 then [(''sources/syzkaller'', [''setup.md'', ''broken.md'', ''logo.png''])]
                 else []),
     get_repo = None,
     get_contents = (\<lambda>p. if p = ''docs/''
                         then Inr [File ''docs/setup.md'',
                                   Dir ''docs/translations'' [File ''docs/translations/setup_zh.md''],
                                   Dir ''docs/linux'' [File ''docs/linux/run.sh'', File ''docs/linux/usb.md'']]
                         else Inl (ClientError ''404'')),
     get_commits = (\<lambda>p until. if p = ''docs/setup.md''
                              then Inr (case until of
                                          None \<Rightarrow> [''def456'', ''abc123'']
                                        | Some d \<Rightarrow> if d < 20250601 then [''abc123'']
                                                    else [''def456'', ''abc123''])
                              else Inr []),
     author_date = (\<lambda>sha. if sha = ''abc123'' then Inr (Some ''2024-12-24 10:00:00'')
                         else if sha = ''def456'' then Inr (Some ''2025-06-01 09:30:00'')
                         else Inl (ClientError ''404'')),
     writable = True\<rparr>"

text \<open>A cache file written at time 1000 with an older listing, and one whose
  \<^verbatim>\<open>files\<close> namespace has the listing but no \<^verbatim>\<open>cache_time\<close>.\<close>

definition demo_cached :: cache_file where
  "demo_cached = Document
     [(''files'', [(''cache_time'', Time 1000),
                   (cache_key_of ''docs/'' [''docs/translations''], Listing [''docs/old.md''])])]"

definition demo_untimed :: cache_file where
  "demo_untimed = Document
     [(''files'', [(cache_key_of ''docs/'' [''docs/translations''], Listing [''docs/old.md''])])]"

text \<open>The \<^verbatim>\<open>commits\<close> namespace and the analyzer after a first batch at time 1000.\<close>

definition demo_commits :: namespace where
  "demo_commits =
     [(''sources/syzkaller/setup.md'',
        CommitRecord (Some ''abc123'', Some ''2024-12-24 10:00:00'')
                     (Some ''def456'', Some ''2025-06-01 09:30:00'')),
      (''cache_time'', Time 1000)]"

definition demo_after :: analyzer where
  "demo_after =
     \<lparr>cache = [(''commits'', demo_commits)],
      repo = True,
      disk = Document [(''commits'', demo_commits)],
      calls = [GetRepo, GetCommits ''docs/setup.md'' (Some 20250101), GetCommit ''abc123'',
               GetCommits ''docs/setup.md'' (Some 20260101), GetCommit ''def456'']\<rparr>"

text \<open>
  A cache file written at time 1000 that has records for both local files and for a file
  that is no longer in the local tree.
\<close>

definition demo_commit_cache :: cache_file where
  "demo_commit_cache = Document
     [(''commits'',
       [(''sources/syzkaller/broken.md'',
           CommitRecord (Some ''aaa111'', Some ''2024-01-01 08:00:00'')
                        (Some ''bbb222'', Some ''2024-02-02 08:00:00'')),
        (''sources/syzkaller/removed.md'',
           CommitRecord (Some ''ccc333'', Some ''2024-03-03 08:00:00'')
                        (Some ''ddd444'', Some ''2024-04-04 08:00:00'')),
        (''sources/syzkaller/setup.md'',
           CommitRecord (Some ''abc123'', Some ''2024-12-24 10:00:00'')
                        (Some ''def456'', Some ''2025-06-01 09:30:00'')),
        (''cache_time'', Time 1000)])]"

text \<open>The same environment with a local tree that holds the one well-formed file.\<close>

definition tidy_world :: world where
  "tidy_world = demo_world\<lparr>walk := (\<lambda>r. if r = ''sources/syzkaller''
                                        then [(''sources/syzkaller'', [''setup.md''])] else [])\<rparr>"



text \<open>
  The same environment with a local tree in which a file that cannot be read follows
  the file without front matter, and the analyzer at the moment the check of that tree,
  started without a cache file, exits.
\<close>

definition late_world :: world where
  "late_world = demo_world\<lparr>walk := (\<lambda>r. if r = ''sources/syzkaller''
       then [(''sources/syzkaller'', [''setup.md'', ''broken.md'', ''later.md''])] else [])\<rparr>"

definition demo_exit :: analyzer where
  "demo_exit =
     \<lparr>cache = [],
      repo = True,
      disk = Absent,
      calls = [GetRepo, GetCommits ''docs/setup.md'' (Some 20250101), GetCommit ''abc123'',
               GetCommits ''docs/setup.md'' (Some 20260101), GetCommit ''def456'']\<rparr>"

section \<open>Path mapping\<close>

lemma str_replace_hit:
  "prefix (a # as) (c # cs) \<Longrightarrow>
   str_replace (a # as) new (c # cs) = new @ str_replace (a # as) new (drop (length as) cs)"
  by (simp only: str_replace.simps if_True)

lemma str_replace_miss:
  "\<not> prefix (a # as) (c # cs) \<Longrightarrow>
   str_replace (a # as) new (c # cs) = c # str_replace (a # as) new cs"
  by (simp only: str_replace.simps if_False)

lemma str_replace_at_occurrence:
  "str_replace (a # as) new ((a # as) @ x) = new @ str_replace (a # as) new x"
proof -
  have "prefix (a # as) (a # (as @ x))" by simp
  from str_replace_hit [OF this, of new] show ?thesis by simp
qed

lemma str_replace_absent:
  "old \<noteq> [] \<Longrightarrow> \<not> sublist old s \<Longrightarrow> str_replace old new s = s"
proof (induction s)
  case Nil
  then show ?case by (cases old) simp_all
next
  case (Cons c cs)
  then obtain a as where old: "old = a # as" by (cases old) auto
  from Cons.prems have np: "\<not> prefix (a # as) (c # cs)"
    unfolding old using prefix_imp_sublist by blast
  from Cons.prems have "\<not> sublist old cs"
    by (meson sublist_Cons_right)
  with Cons.IH Cons.prems(1) have "str_replace old new cs = cs" by blast
  with str_replace_miss [OF np, of new] show ?case unfolding old by simp
qed

lemma prefix_str_replace_back:
  "prefix w (str_replace (a # as) (d # ds) t) \<Longrightarrow> d \<notin> set w \<Longrightarrow> prefix w t"
proof (induction w arbitrary: t)
  case Nil
  then show ?case by simp
next
  case (Cons x w)
  show ?case
  proof (cases t)
    case Nil
    with Cons.prems show ?thesis by simp
  next
    case t: (Cons c cs)
    show ?thesis
    proof (cases "prefix (a # as) (c # cs)")
      case True
      from Cons.prems(1)
      have "prefix (x # w) (d # ds @ str_replace (a # as) (d # ds) (drop (length as) cs))"
        unfolding t str_replace_hit [OF True] by simp
      then have "x = d" by simp
      with Cons.prems(2) show ?thesis by simp
    next
      case False
      from Cons.prems(1) have "prefix (x # w) (c # str_replace (a # as) (d # ds) cs)"
        unfolding t str_replace_miss [OF False] .
      then have "x = c" "prefix w (str_replace (a # as) (d # ds) cs)"
        by simp_all
      moreover from Cons.prems(2) have "d \<notin> set w" by simp
      ultimately show ?thesis using Cons.IH [of cs] t by simp
    qed
  qed
qed

lemma str_replace_inverse:
  "d \<notin> set ds \<Longrightarrow> \<not> sublist (d # ds) s \<Longrightarrow>
   str_replace (d # ds) (a # as) (str_replace (a # as) (d # ds) s) = s"
proof (induction s rule: length_induct)
  case (1 s)
  show ?case
  proof (cases s)
    case Nil
    then show ?thesis by simp
  next
    case s: (Cons c cs)
    show ?thesis
    proof (cases "prefix (a # as) (c # cs)")
      case True
      then obtain r where r: "c # cs = (a # as) @ r"
        by (auto simp: prefix_def)
      then have dr: "drop (length as) cs = r" by auto
      from r s have "suffix r s" by (simp add: suffix_def)
      then have "sublist r s" by (rule suffix_imp_sublist)
      with "1.prems"(2) have nr: "\<not> sublist (d # ds) r"
        using sublist_order.order.trans by blast
      have "length (c # cs) = length (a # as) + length r"
        using r by (metis length_append)
      with s have "length r < length s" by simp
      with "1.IH" "1.prems"(1) nr
      have ih: "str_replace (d # ds) (a # as) (str_replace (a # as) (d # ds) r) = r" by blast
      have "str_replace (a # as) (d # ds) (c # cs) = (d # ds) @ str_replace (a # as) (d # ds) r"
        using str_replace_hit [OF True, of "d # ds"] dr by simp
      moreover have "str_replace (d # ds) (a # as) ((d # ds) @ str_replace (a # as) (d # ds) r)
          = (a # as) @ str_replace (d # ds) (a # as) (str_replace (a # as) (d # ds) r)"
        by (rule str_replace_at_occurrence)
      ultimately show ?thesis using ih r s by simp
    next
      case False
      have nsub: "\<not> sublist (d # ds) cs"
        using "1.prems"(2) s by (meson sublist_Cons_right)
      have np: "\<not> prefix (d # ds) (c # str_replace (a # as) (d # ds) cs)"
      proof
        assume p: "prefix (d # ds) (c # str_replace (a # as) (d # ds) cs)"
        then have "c = d" "prefix ds (str_replace (a # as) (d # ds) cs)" by auto
        with "1.prems"(1) have "prefix ds cs" using prefix_str_replace_back by blast
        with \<open>c = d\<close> have "prefix (d # ds) (c # cs)" by simp
        with "1.prems"(2) s show False using prefix_imp_sublist by blast
      qed
      from "1.IH" "1.prems"(1) nsub s
      have "str_replace (d # ds) (a # as) (str_replace (a # as) (d # ds) cs) = cs" by simp
      with str_replace_miss [OF False, of "d # ds"] str_replace_miss [OF np, of "a # as"] s
      show ?thesis by simp
    qed
  qed
qed

subsection \<open>Round trip of the path mapping\<close>

text \<open>
  C6 (amended). The claim promises the round trip for every path that begins with
  \<^verbatim>\<open>sources/syzkaller/\<close>. The mapping is \<^verbatim>\<open>str.replace\<close>, which rewrites every
  occurrence: a path under the local prefix that contains \<^verbatim>\<open>docs/\<close> comes back with
  that occurrence rewritten too (the counterexample below). What holds: for every path
  that begins with \<^verbatim>\<open>sources/syzkaller/\<close> and does not contain \<^verbatim>\<open>docs/\<close>, mapping
  local to upstream and back returns the path.
\<close>

theorem map_file_path_roundtrip:
  assumes "prefix ''sources/syzkaller/'' p" and "\<not> sublist ''docs/'' p"
  shows "map_file_path (map_file_path p True) False = p"
proof -
  from assms(1) obtain r where r: "p = ''sources/syzkaller/'' @ r"
    by (auto simp: prefix_def)
  have "str_replace ''sources/syzkaller/'' ''docs/'' p
      = ''docs/'' @ str_replace ''sources/syzkaller/'' ''docs/'' r"
    unfolding r by (rule str_replace_at_occurrence)
  then have "\<not> prefix ''./'' (str_replace ''sources/syzkaller/'' ''docs/'' p)"
    by simp
  moreover have "str_replace ''docs/'' ''sources/syzkaller/''
      (str_replace ''sources/syzkaller/'' ''docs/'' p) = p"
    using str_replace_inverse [of "CHR ''d''" "''ocs/''" p "CHR ''s''" "''ources/syzkaller/''"]
      assms(2)
    by simp
  ultimately show ?thesis by (simp add: map_file_path_def)
qed

theorem map_file_path_roundtrip_witness:
  "prefix ''sources/syzkaller/'' ''sources/syzkaller/linux/setup.md''
   \<and> \<not> sublist ''docs/'' ''sources/syzkaller/linux/setup.md''
   \<and> map_file_path (map_file_path ''sources/syzkaller/linux/setup.md'' True) False
       = ''sources/syzkaller/linux/setup.md''"
proof -
  have h1: "prefix ''sources/syzkaller/'' ''sources/syzkaller/linux/setup.md''" by simp
  have h2: "\<not> sublist ''docs/'' ''sources/syzkaller/linux/setup.md''" by code_simp
  from map_file_path_roundtrip [OF h1 h2] h1 h2 show ?thesis by blast
qed

theorem map_file_path_roundtrip_counterexample:
  "prefix ''sources/syzkaller/'' ''sources/syzkaller/docs/setup.md''
   \<and> map_file_path (map_file_path ''sources/syzkaller/docs/setup.md'' True) False
       = ''sources/syzkaller/sources/syzkaller/setup.md''
   \<and> map_file_path (map_file_path ''sources/syzkaller/docs/setup.md'' True) False
       \<noteq> ''sources/syzkaller/docs/setup.md''"
  by (simp add: map_file_path_def)

subsection \<open>Paths that match neither pattern\<close>

text \<open>
  C7 (amended). The claim says that a path matching neither prefix pattern is returned
  unchanged in both directions. The counterexample below gives two paths that begin with
  neither prefix and are changed: local to upstream drops a leading \<^verbatim>\<open>./\<close>, and
  upstream to local rewrites \<^verbatim>\<open>docs/\<close> in the middle of a path. What holds: a path that
  does not contain \<^verbatim>\<open>sources/syzkaller/\<close> is mapped local to upstream to itself, or to
  itself without its leading \<^verbatim>\<open>./\<close> when it has one; a path that does not contain
  \<^verbatim>\<open>docs/\<close> is mapped upstream to local to itself. The function is total: no input
  raises.
\<close>

theorem map_file_path_unmatched:
  "(\<not> sublist ''sources/syzkaller/'' p \<longrightarrow>
      map_file_path p True = (if prefix ''./'' p then drop 2 p else p))
   \<and> (\<not> sublist ''docs/'' p \<longrightarrow> map_file_path p False = p)"
  by (simp add: map_file_path_def str_replace_absent)

theorem map_file_path_unmatched_witness:
  "\<not> sublist ''sources/syzkaller/'' ''README.md''
   \<and> map_file_path ''README.md'' True = ''README.md''
   \<and> \<not> sublist ''docs/'' ''README.md''
   \<and> map_file_path ''README.md'' False = ''README.md''"
proof -
  have h1: "\<not> sublist ''sources/syzkaller/'' ''README.md''" by code_simp
  have h2: "\<not> sublist ''docs/'' ''README.md''" by code_simp
  from map_file_path_unmatched [of "''README.md''"] h1 h2 show ?thesis by simp
qed

theorem map_file_path_unmatched_counterexample:
  "\<not> prefix ''sources/syzkaller/'' ''./README.md'' \<and> \<not> prefix ''docs/'' ''./README.md''
   \<and> map_file_path ''./README.md'' True \<noteq> ''./README.md''
   \<and> \<not> prefix ''sources/syzkaller/'' ''tools/docs/x.md'' \<and> \<not> prefix ''docs/'' ''tools/docs/x.md''
   \<and> map_file_path ''tools/docs/x.md'' False \<noteq> ''tools/docs/x.md''"
  by (simp add: map_file_path_def)

section \<open>Dictionaries\<close>

lemma map_of_dict_set: "map_of (dict_set k v d) = (map_of d)(k \<mapsto> v)"
  by (induction d) (auto simp: fun_eq_iff)

lemma dict_keys_dict_set:
  "dict_keys (dict_set k v d) = (if k \<in> set (dict_keys d) then dict_keys d else dict_keys d @ [k])"
  by (induction d) (force simp: dict_keys_def)+

lemma map_of_eq_None_dict_keys: "map_of d k = None \<longleftrightarrow> k \<notin> set (dict_keys d)"
  by (simp add: dict_keys_def map_of_eq_None_iff)

section \<open>Staleness\<close>

lemma update_loop_result:
  "\<forall>(k, v) \<in> set items. k \<noteq> ''cache_time'' \<longrightarrow> (\<exists>c l. v = CommitRecord c l) \<Longrightarrow>
   update_loop items acc =
     Inr (acc @ map fst (filter (\<lambda>(k, v). k \<noteq> ''cache_time'' \<and> is_stale v) items))"
proof (induction items arbitrary: acc)
  case Nil
  then show ?case by simp
next
  case (Cons kv items)
  obtain k v where kv: "kv = (k, v)" by (cases kv)
  show ?case
  proof (cases "k = ''cache_time''")
    case True
    with Cons kv show ?thesis by simp
  next
    case False
    with Cons.prems kv obtain c l where v: "v = CommitRecord c l" by auto
    from Cons.prems have "\<forall>(k, v) \<in> set items. k \<noteq> ''cache_time'' \<longrightarrow> (\<exists>c l. v = CommitRecord c l)"
      by simp
    from Cons.IH [OF this] False kv v show ?thesis
      by (simp add: is_stale_def)
  qed
qed

text \<open>
  C2. For every record in the namespace that \<^verbatim>\<open>check_update\<close> iterates over, the loop
  returns, and the path of the record is in the returned list exactly when the collected
  sha and the latest sha differ. The shas are optional strings and the comparison is
  plain inequality: two different shas differ, two equal shas do not, \<open>None\<close> differs
  from every sha, and \<open>None\<close> does not differ from \<open>None\<close>, so a record with two null
  shas is not flagged.
\<close>

theorem stale_iff_shas_differ:
  assumes wf: "\<forall>(k, v) \<in> set items. k \<noteq> ''cache_time'' \<longrightarrow> (\<exists>c l. v = CommitRecord c l)"
    and dist: "distinct (dict_keys items)"
    and mem: "(p, CommitRecord (sha1, date1) (sha2, date2)) \<in> set items"
    and p: "p \<noteq> ''cache_time''"
  shows "\<exists>out. update_loop items [] = Inr out \<and> (p \<in> set out \<longleftrightarrow> sha1 \<noteq> sha2)"
proof -
  let ?P = "\<lambda>(k, v). k \<noteq> ''cache_time'' \<and> is_stale v"
  have res: "update_loop items [] = Inr (map fst (filter ?P items))"
    using update_loop_result [OF wf, of "[]"] by simp
  have "p \<in> set (map fst (filter ?P items)) \<longleftrightarrow> sha1 \<noteq> sha2"
  proof
    assume "p \<in> set (map fst (filter ?P items))"
    then obtain v where v: "(p, v) \<in> set items" "is_stale v" by auto
    from dist have "distinct (map fst items)" by (simp add: dict_keys_def)
    from this v(1) mem have "v = CommitRecord (sha1, date1) (sha2, date2)"
      by (rule eq_key_imp_eq_value)
    with v(2) show "sha1 \<noteq> sha2" by (simp add: is_stale_def outdated_def)
  next
    assume "sha1 \<noteq> sha2"
    then have "?P (p, CommitRecord (sha1, date1) (sha2, date2))"
      using p by (simp add: is_stale_def outdated_def)
    with mem have "(p, CommitRecord (sha1, date1) (sha2, date2)) \<in> set (filter ?P items)"
      by simp
    then have "fst (p, CommitRecord (sha1, date1) (sha2, date2)) \<in> fst ` set (filter ?P items)"
      by (rule imageI)
    then show "p \<in> set (map fst (filter ?P items))" by simp
  qed
  with res show ?thesis by simp
qed

theorem stale_iff_shas_differ_witness:
  "(\<exists>out. update_loop
       [(''sources/syzkaller/setup.md'',
          CommitRecord (Some ''abc123'', Some ''2024-12-24 10:00:00'')
                       (Some ''def456'', Some ''2025-06-01 09:30:00'')),
        (''sources/syzkaller/usb.md'', CommitRecord (None, None) (None, None)),
        (''cache_time'', Time 1000)] [] = Inr out
      \<and> ''sources/syzkaller/setup.md'' \<in> set out)
   \<and> (\<exists>out. update_loop
       [(''sources/syzkaller/setup.md'',
          CommitRecord (Some ''abc123'', Some ''2024-12-24 10:00:00'')
                       (Some ''def456'', Some ''2025-06-01 09:30:00'')),
        (''sources/syzkaller/usb.md'', CommitRecord (None, None) (None, None)),
        (''cache_time'', Time 1000)] [] = Inr out
      \<and> ''sources/syzkaller/usb.md'' \<notin> set out)"
proof -
  let ?items = "[(''sources/syzkaller/setup.md'',
          CommitRecord (Some ''abc123'', Some ''2024-12-24 10:00:00'')
                       (Some ''def456'', Some ''2025-06-01 09:30:00'')),
        (''sources/syzkaller/usb.md'', CommitRecord (None, None) (None, None)),
        (''cache_time'', Time 1000)]"
  have h1: "\<forall>(k, v) \<in> set ?items. k \<noteq> ''cache_time'' \<longrightarrow> (\<exists>c l. v = CommitRecord c l)"
    by simp
  have h2: "distinct (dict_keys ?items)" by (simp add: dict_keys_def)
  have h3: "(''sources/syzkaller/setup.md'',
          CommitRecord (Some ''abc123'', Some ''2024-12-24 10:00:00'')
                       (Some ''def456'', Some ''2025-06-01 09:30:00'')) \<in> set ?items"
    by simp
  have h3': "(''sources/syzkaller/usb.md'', CommitRecord (None, None) (None, None)) \<in> set ?items"
    by simp
  have h4: "''sources/syzkaller/setup.md'' \<noteq> ''cache_time''" by simp
  have h4': "''sources/syzkaller/usb.md'' \<noteq> ''cache_time''" by simp
  have h5: "Some ''abc123'' \<noteq> Some ''def456''" by simp
  from stale_iff_shas_differ [OF h1 h2 h3 h4] h5 have a:
    "\<exists>out. update_loop ?items [] = Inr out \<and> ''sources/syzkaller/setup.md'' \<in> set out"
    by simp
  from stale_iff_shas_differ [OF h1 h2 h3' h4'] have b:
    "\<exists>out. update_loop ?items [] = Inr out \<and> ''sources/syzkaller/usb.md'' \<notin> set out"
    by simp
  from a b show ?thesis by (rule conjI)
qed

section \<open>Commit lookup\<close>









section \<open>Collection audit\<close>

text \<open>
  C3. When the listing lookup returns the upstream listing, \<^verbatim>\<open>check_collection\<close>
  returns the listing filtered, so in listing order: an upstream path is kept exactly
  when no local file exists at the path it is mapped to, joined to the project path, and
  the upstream path ends with none of \<^verbatim>\<open>.drawio\<close>, \<^verbatim>\<open>.patch\<close>, \<^verbatim>\<open>.sh\<close>, \<^verbatim>\<open>.py\<close>.
\<close>

theorem check_collection_filter:
  assumes "get_repo_files_recursively w now a ''docs/'' [''docs/translations'']
             = Inr (Listing upstream_file_list, a')"
  shows "check_collection w now a proj
           = Inr (filter (\<lambda>u. \<not> isfile w (path_join proj (map_file_path u False))
                            \<and> \<not> (suffix ''.drawio'' u \<or> suffix ''.patch'' u
                                  \<or> suffix ''.sh'' u \<or> suffix ''.py'' u))
                    upstream_file_list, a')"
proof -
  have "uncollected w proj = (\<lambda>u. \<not> isfile w (path_join proj (map_file_path u False))
                            \<and> \<not> (suffix ''.drawio'' u \<or> suffix ''.patch'' u
                                  \<or> suffix ''.sh'' u \<or> suffix ''.py'' u))"
    by (simp add: uncollected_def endswith_any_def no_need_to_collect_def fun_eq_iff)
  with assms show ?thesis
    by (simp add: check_collection_def)
qed

lemma demo_listing:
  "get_repo_files_recursively demo_world 1000 (new_analyzer Absent) ''docs/'' [''docs/translations'']
     = Inr (Listing [''docs/setup.md'', ''docs/linux/run.sh'', ''docs/linux/usb.md''],
            save_cache demo_world
              ((new_analyzer Absent)\<lparr>repo := True,
                 cache := [(''files'', [(''cache_time'', Time 1000),
                     (cache_key_of ''docs/'' [''docs/translations''],
                      Listing [''docs/setup.md'', ''docs/linux/run.sh'', ''docs/linux/usb.md''])])],
                 calls := [GetRepo, GetContents ''docs/'', GetContents ''docs/linux'']\<rparr>))"
  by (simp add: get_repo_files_recursively_def fetch_files_def ensure_repo_def new_analyzer_def
      load_cache_def cache_get_def demo_world_def cache_key_of_def py_repr_def)

theorem check_collection_filter_witness:
  "\<exists>a'. check_collection demo_world 1000 (new_analyzer Absent) ''.''
           = Inr ([''docs/linux/usb.md''], a')"
proof -
  have f: "filter (\<lambda>u. \<not> isfile demo_world (path_join ''.'' (map_file_path u False))
                            \<and> \<not> (suffix ''.drawio'' u \<or> suffix ''.patch'' u
                                  \<or> suffix ''.sh'' u \<or> suffix ''.py'' u))
             [''docs/setup.md'', ''docs/linux/run.sh'', ''docs/linux/usb.md'']
           = [''docs/linux/usb.md'']"
    by code_simp
  from check_collection_filter [OF demo_listing, of "''.''"] show ?thesis
    unfolding f by (rule exI)
qed

section \<open>The directory-listing lookup\<close>



lemma dict_set_twice: "dict_set k v' (dict_set k v d) = dict_set k v' d"
  by (induction d) auto






lemma demo_cached_lookup:
  "map_of (cache_get (cache (new_analyzer demo_cached)) ''files'')
     (cache_key_of ''docs/'' [''docs/translations'']) = Some (Listing [''docs/old.md''])"
  "map_of (cache_get (cache (new_analyzer demo_cached)) ''files'') ''cache_time'' = Some (Time 1000)"
  by (simp_all add: new_analyzer_def demo_cached_def load_cache_def cache_get_def cache_key_of_def)



text \<open>
  C10. On the hit path \<^verbatim>\<open>cache_time\<close> is read by plain indexing. If every namespace of
  the analyzer's document has a \<^verbatim>\<open>cache_time\<close> key and the queried key is present,
  the read succeeds and the lookup goes on to the time comparison. If the cache file
  holds a document whose \<^verbatim>\<open>files\<close> namespace has the queried key and no
  \<^verbatim>\<open>cache_time\<close>, the document is loaded as it is and the lookup raises
  \<^verbatim>\<open>KeyError('cache_time')\<close>; the entry is not treated as expired and nothing is
  fetched.
\<close>

theorem cache_time_unguarded:
  "((\<forall>(n, ns) \<in> set (cache a). ''cache_time'' \<in> set (dict_keys ns))
      \<and> map_of (cache_get (cache a) ''files'') (cache_key_of target exclude) = Some v
     \<longrightarrow> (\<exists>cached_time. map_of (cache_get (cache a) ''files'') ''cache_time'' = Some cached_time
            \<and> get_repo_files_recursively w now a target exclude
                = (case alive now cached_time of
                     Inl e \<Rightarrow> Inl e
                   | Inr True \<Rightarrow> Inr (v, a)
                   | Inr False \<Rightarrow> fetch_files w now a target exclude)))
   \<and> (map_of (cache_get d ''files'') (cache_key_of target exclude) = Some v
        \<and> ''cache_time'' \<notin> set (dict_keys (cache_get d ''files''))
       \<longrightarrow> cache (new_analyzer (Document d)) = d
           \<and> get_repo_files_recursively w now (new_analyzer (Document d)) target exclude
               = Inl (KeyError ''cache_time''))"
proof (intro conjI impI)
  assume inv: "(\<forall>(n, ns) \<in> set (cache a). ''cache_time'' \<in> set (dict_keys ns))
      \<and> map_of (cache_get (cache a) ''files'') (cache_key_of target exclude) = Some v"
  then obtain ns where ns: "map_of (cache a) ''files'' = Some ns"
    by (cases "map_of (cache a) ''files''") (auto simp: cache_get_def)
  then have "(''files'', ns) \<in> set (cache a)" by (rule map_of_SomeD)
  with inv have "''cache_time'' \<in> set (dict_keys ns)" by auto
  then obtain cached_time where ct: "map_of ns ''cache_time'' = Some cached_time"
    using map_of_eq_None_dict_keys [of ns "''cache_time''"] by auto
  with ns inv show "\<exists>cached_time. map_of (cache_get (cache a) ''files'') ''cache_time'' = Some cached_time
            \<and> get_repo_files_recursively w now a target exclude
                = (case alive now cached_time of
                     Inl e \<Rightarrow> Inl e
                   | Inr True \<Rightarrow> Inr (v, a)
                   | Inr False \<Rightarrow> fetch_files w now a target exclude)"
    by (simp add: get_repo_files_recursively_def cache_get_def Let_def)
next
  show "cache (new_analyzer (Document d)) = d"
    by (simp add: new_analyzer_def load_cache_def)
next
  assume "map_of (cache_get d ''files'') (cache_key_of target exclude) = Some v
        \<and> ''cache_time'' \<notin> set (dict_keys (cache_get d ''files''))"
  then show "get_repo_files_recursively w now (new_analyzer (Document d)) target exclude
               = Inl (KeyError ''cache_time'')"
    using map_of_eq_None_dict_keys [of "cache_get d ''files''" "''cache_time''"]
    by (simp add: get_repo_files_recursively_def new_analyzer_def load_cache_def Let_def)
qed

theorem cache_time_unguarded_witness:
  "get_repo_files_recursively demo_world 2000 (new_analyzer demo_untimed)
       ''docs/'' [''docs/translations''] = Inl (KeyError ''cache_time'')
   \<and> get_repo_files_recursively demo_world 2000 (new_analyzer demo_cached)
       ''docs/'' [''docs/translations'']
       = Inr (Listing [''docs/old.md''], new_analyzer demo_cached)"
proof -
  let ?d = "[(''files'', [(cache_key_of ''docs/'' [''docs/translations''], Listing [''docs/old.md''])])]"
  let ?c = "[(''files'', [(''cache_time'', Time 1000),
                   (cache_key_of ''docs/'' [''docs/translations''], Listing [''docs/old.md''])])]"
  have d: "demo_untimed = Document ?d" by (simp add: demo_untimed_def)
  have h1: "map_of (cache_get ?d ''files'') (cache_key_of ''docs/'' [''docs/translations''])
              = Some (Listing [''docs/old.md''])
            \<and> ''cache_time'' \<notin> set (dict_keys (cache_get ?d ''files''))"
    by (simp add: cache_get_def dict_keys_def cache_key_of_def)
  have c: "cache (new_analyzer demo_cached) = ?c"
    by (simp add: new_analyzer_def demo_cached_def load_cache_def)
  have h2: "(\<forall>(n, ns) \<in> set (cache (new_analyzer demo_cached)). ''cache_time'' \<in> set (dict_keys ns))
      \<and> map_of (cache_get (cache (new_analyzer demo_cached)) ''files'')
            (cache_key_of ''docs/'' [''docs/translations'']) = Some (Listing [''docs/old.md''])"
    unfolding c by (simp add: cache_get_def dict_keys_def cache_key_of_def)
  note inst = cache_time_unguarded [of "new_analyzer demo_cached" "''docs/''" "[''docs/translations'']"
      "Listing [''docs/old.md'']" demo_world 2000 ?d]
  from inst [THEN conjunct2, THEN mp, OF h1]
  have a: "get_repo_files_recursively demo_world 2000 (new_analyzer demo_untimed)
       ''docs/'' [''docs/translations''] = Inl (KeyError ''cache_time'')"
    unfolding d by (rule conjunct2)
  from inst [THEN conjunct1, THEN mp, OF h2] have "\<exists>cached_time.
      map_of (cache_get (cache (new_analyzer demo_cached)) ''files'') ''cache_time'' = Some cached_time
      \<and> get_repo_files_recursively demo_world 2000 (new_analyzer demo_cached)
           ''docs/'' [''docs/translations'']
         = (case alive 2000 cached_time of
              Inl e \<Rightarrow> Inl e
            | Inr True \<Rightarrow> Inr (Listing [''docs/old.md''], new_analyzer demo_cached)
            | Inr False \<Rightarrow> fetch_files demo_world 2000 (new_analyzer demo_cached)
                ''docs/'' [''docs/translations''])" .
  then have b: "get_repo_files_recursively demo_world 2000 (new_analyzer demo_cached)
       ''docs/'' [''docs/translations'']
       = Inr (Listing [''docs/old.md''], new_analyzer demo_cached)"
    unfolding demo_cached_lookup(2) by (auto simp: cache_ttl_def)
  from a b show ?thesis by (rule conjI)
qed

section \<open>The commits namespace\<close>

lemma set_dict_keys_dict_set: "set (dict_keys (dict_set k v d)) = insert k (set (dict_keys d))"
  by (auto simp: dict_keys_dict_set)

lemma fst_store_record: "fst (store_record al k v (c, a)) = dict_set k v c"
  by (simp add: store_record_def Let_def)

lemma snd_store_record:
  "snd (store_record al k v (c, a))
     = (if al then a\<lparr>cache := dict_set ''commits'' (dict_set k v c) (cache a)\<rparr> else a)"
  by (simp add: store_record_def Let_def)

lemma store_record_eq:
  "store_record al k v (c, a)
     = (dict_set k v c,
        if al then a\<lparr>cache := dict_set ''commits'' (dict_set k v c) (cache a)\<rparr> else a)"
  by (simp add: store_record_def Let_def)

lemma ensure_repo_keeps:
  "ensure_repo w a = (r, a') \<Longrightarrow> cache a' = cache a \<and> disk a' = disk a"
  by (auto simp: ensure_repo_def split: if_splits option.splits)

lemma commit_lookup_keeps:
  "commit_lookup w a p u = (r, a') \<Longrightarrow> cache a' = cache a \<and> disk a' = disk a"
  by (auto simp: commit_lookup_def Let_def dest!: ensure_repo_keeps
      split: prod.splits option.splits sum.splits list.splits)

lemma get_file_commit_and_date_keeps:
  "get_file_commit_and_date w a p u = (r, a') \<Longrightarrow> cache a' = cache a \<and> disk a' = disk a"
  by (auto simp: get_file_commit_and_date_def dest!: commit_lookup_keeps
      split: prod.splits sum.splits if_splits option.splits)

lemma derive_record_shape:
  assumes "derive_record w al f (c, a) = Inr (c', a')"
  shows "\<exists>p q. c' = dict_set f (CommitRecord p q) c \<and> derived_for w f (CommitRecord p q)"
    and "disk a' = disk a"
proof -
  let ?s1 = "store_record al f (Partial None) (c, a)"
  let ?up = "map_file_path f True"
  from assms obtain d where d: "read_collected_date w f = Inr d"
    by (cases "read_collected_date w f")
       (auto simp: derive_record_def store_record_eq split: prod.splits)
  obtain r1 a2 where g1: "get_file_commit_and_date w (snd ?s1) ?up (Some d) = (r1, a2)"
    by (cases "get_file_commit_and_date w (snd ?s1) ?up (Some d)")
  with assms d obtain p where p: "r1 = Inr p"
    by (cases r1) (auto simp: derive_record_def Let_def split: prod.splits)
  let ?s2 = "store_record al f (Partial (Some p)) (fst ?s1, a2)"
  obtain r2 a4 where g2: "get_file_commit_and_date w (snd ?s2) ?up (Some (datetime_now w f)) = (r2, a4)"
    by (cases "get_file_commit_and_date w (snd ?s2) ?up (Some (datetime_now w f))")
  with assms d g1 p obtain q where q: "r2 = Inr q"
    by (cases r2) (auto simp: derive_record_def Let_def split: prod.splits)
  from assms d g1 p g2 q
  have res: "(c', a') = store_record al f (CommitRecord p q) (fst ?s2, a4)"
    by (auto simp: derive_record_def Let_def split: prod.splits)
  then have c': "c' = dict_set f (CommitRecord p q) c"
    by (simp add: store_record_eq dict_set_twice)
  have "derived_for w f (CommitRecord p q)"
    unfolding derived_for_def using d g1 g2 p q
    by (intro exI [of _ d] exI [of _ "snd ?s1"] exI [of _ "snd ?s2"] exI [of _ p] exI [of _ q])
       simp
  with c' show "\<exists>p q. c' = dict_set f (CommitRecord p q) c \<and> derived_for w f (CommitRecord p q)"
    by blast
  from get_file_commit_and_date_keeps [OF g1] get_file_commit_and_date_keeps [OF g2] res
  show "disk a' = disk a"
    by (auto simp: store_record_eq split: if_splits)
qed


lemma commits_loop_derive:
  "needs_refresh now t c f \<Longrightarrow>
   commits_loop w now (Time t) al (f # fs) (c, ch, a) =
     (case derive_record w al f (c, a) of
        Inl ea \<Rightarrow> Inl ea
      | Inr (c1, a1) \<Rightarrow> commits_loop w now (Time t) al fs (c1, True, a1))"
  by (auto simp: needs_refresh_def split: sum.splits)




lemma cached_time_of_dict_set: "cached_time_of (dict_set ''cache_time'' v c) = v"
  by (simp add: cached_time_of_def map_of_dict_set)

lemma get_files_commits_and_dates_unfold:
  assumes "get_files_commits_and_dates w now a fs = Inr (ns', a')"
  obtains c' ch' a1 where
    "commits_loop w now (cached_time_of (cache_get (cache a) ''commits''))
       (map_of (cache a) ''commits'' \<noteq> None) fs
       (cache_get (cache a) ''commits'', False, a) = Inr (c', ch', a1)"
    "ch' \<Longrightarrow> ns' = dict_set ''cache_time'' (Time now) c'"
    "ch' \<Longrightarrow> a' = save_cache w (a1\<lparr>cache := dict_set ''commits'' ns' (cache a1)\<rparr>)"
    "\<not> ch' \<Longrightarrow> ns' = c' \<and> a' = a1"
  using assms
  by (auto simp: get_files_commits_and_dates_def Let_def split: sum.splits prod.splits if_splits)




section \<open>The staleness check\<close>

lemma update_loop_Inr:
  "update_loop items acc = Inr out \<Longrightarrow>
   out = acc @ map fst (filter (\<lambda>(k, v). k \<noteq> ''cache_time'' \<and> is_stale v) items)"
proof (induction items arbitrary: acc)
  case Nil
  then show ?case by simp
next
  case (Cons kv items)
  obtain k v where kv: "kv = (k, v)" by (cases kv)
  show ?case
  proof (cases "k = ''cache_time''")
    case True
    with Cons kv show ?thesis by simp
  next
    case False
    with Cons.prems kv obtain c l where v: "v = CommitRecord c l"
      by (cases v) auto
    with Cons.prems kv False
    have "update_loop items (if outdated c l then acc @ [k] else acc) = Inr out" by simp
    from Cons.IH [OF this] kv v False show ?thesis
      by (simp add: is_stale_def)
  qed
qed

lemma commits_loop_step:
  assumes "commits_loop w now ctv al (f # fs) (c, ch, a) = Inr r"
  shows "(f \<in> set (dict_keys c) \<and> commits_loop w now ctv al fs (c, ch, a) = Inr r)
       \<or> (\<exists>p q a2. derive_record w al f (c, a) = Inr (dict_set f (CommitRecord p q) c, a2)
            \<and> commits_loop w now ctv al fs (dict_set f (CommitRecord p q) c, True, a2) = Inr r)"
proof -
  have derive: "\<exists>p q a2. derive_record w al f (c, a) = Inr (dict_set f (CommitRecord p q) c, a2)
            \<and> commits_loop w now ctv al fs (dict_set f (CommitRecord p q) c, True, a2) = Inr r"
    if "(case derive_record w al f (c, a) of
           Inl ea \<Rightarrow> Inl ea
         | Inr (c1, a1) \<Rightarrow> commits_loop w now ctv al fs (c1, True, a1)) = Inr r"
  proof -
    from that obtain c1 a2 where dr: "derive_record w al f (c, a) = Inr (c1, a2)"
      by (cases "derive_record w al f (c, a)") auto
    from derive_record_shape(1) [OF dr] obtain p q where
      c1: "c1 = dict_set f (CommitRecord p q) c" by blast
    from that dr c1
    have "derive_record w al f (c, a) = Inr (dict_set f (CommitRecord p q) c, a2)
        \<and> commits_loop w now ctv al fs (dict_set f (CommitRecord p q) c, True, a2) = Inr r"
      by simp
    then show ?thesis by (intro exI)
  qed
  show ?thesis
  proof (cases "f \<in> set (dict_keys c)")
    case False
    with assms derive show ?thesis by simp
  next
    case True
    show ?thesis
    proof (cases "alive now ctv")
      case (Inl e)
      with assms True show ?thesis by simp
    next
      case (Inr b)
      with assms True derive show ?thesis by (cases b) simp_all
    qed
  qed
qed

lemma commits_loop_keys:
  "commits_loop w now ctv al fs (c, ch, a) = Inr (c', ch', a') \<Longrightarrow>
   dict_keys c' = dict_keys c @ first_occurrences (filter (\<lambda>f. f \<notin> set (dict_keys c)) fs)"
proof (induction fs arbitrary: c ch a)
  case Nil
  then show ?case by simp
next
  case (Cons f fs)
  from commits_loop_step [OF Cons.prems]
  consider (skip) "f \<in> set (dict_keys c)" "commits_loop w now ctv al fs (c, ch, a) = Inr (c', ch', a')"
    | (derive) p q a2 where
        "commits_loop w now ctv al fs (dict_set f (CommitRecord p q) c, True, a2) = Inr (c', ch', a')"
    by blast
  then show ?case
  proof cases
    case skip
    from Cons.IH [OF skip(2)] skip(1) show ?thesis by simp
  next
    case derive
    note ih = Cons.IH [OF derive]
    show ?thesis
    proof (cases "f \<in> set (dict_keys c)")
      case True
      with ih show ?thesis by (simp add: dict_keys_dict_set)
    next
      case False
      have "filter (\<lambda>g. g \<notin> set (dict_keys (dict_set f (CommitRecord p q) c))) fs
          = filter (\<lambda>y. y \<noteq> f) (filter (\<lambda>g. g \<notin> set (dict_keys c)) fs)"
        by (auto simp: set_dict_keys_dict_set intro: filter_cong)
      with ih False show ?thesis by (simp add: dict_keys_dict_set)
    qed
  qed
qed

lemma commits_loop_disk:
  "commits_loop w now ctv al fs (c, ch, a) = Inr (c', ch', a') \<Longrightarrow> disk a' = disk a"
proof (induction fs arbitrary: c ch a)
  case Nil
  then show ?case by simp
next
  case (Cons f fs)
  from commits_loop_step [OF Cons.prems]
  consider (skip) "commits_loop w now ctv al fs (c, ch, a) = Inr (c', ch', a')"
    | (derive) p q a2 where
        "derive_record w al f (c, a) = Inr (dict_set f (CommitRecord p q) c, a2)"
        "commits_loop w now ctv al fs (dict_set f (CommitRecord p q) c, True, a2) = Inr (c', ch', a')"
    by blast
  then show ?case
  proof cases
    case skip
    then show ?thesis by (rule Cons.IH)
  next
    case derive
    from Cons.IH [OF derive(2)] derive_record_shape(2) [OF derive(1)] show ?thesis by simp
  qed
qed

lemma first_occurrences_distinct: "distinct xs \<Longrightarrow> first_occurrences xs = xs"
proof (induction xs)
  case Nil
  then show ?case by simp
next
  case (Cons x xs)
  then have "filter (\<lambda>y. y \<noteq> x) xs = xs" by (auto intro: filter_True)
  with Cons show ?case by simp
qed

lemma set_first_occurrences: "set (first_occurrences xs) = set xs"
proof (induction xs rule: first_occurrences.induct)
  case 1
  then show ?case by simp
next
  case (2 x xs)
  then show ?case by auto
qed

lemma path_join_suffix: "suffix b (path_join a b)"
  by (auto simp: path_join_def suffix_def)

lemma scan_local_suffix:
  assumes "f \<in> set (scan_local w dir)"
  shows "suffix ''.md'' f \<or> suffix ''.txt'' f"
proof -
  from assms obtain r fn where "f = path_join r fn" "endswith_any fn tranlatable_file_suffix"
    by (auto simp: scan_local_def)
  then have "suffix fn f" "suffix ''.md'' fn \<or> suffix ''.txt'' fn"
    by (auto simp: path_join_suffix endswith_any_def tranlatable_file_suffix_def)
  then show ?thesis by (auto simp: suffix_def)
qed

lemma scan_local_not_cache_time:
  assumes "f \<in> set (scan_local w dir)"
  shows "f \<noteq> ''cache_time''"
proof
  assume f: "f = ''cache_time''"
  from scan_local_suffix [OF assms] obtain zs where "f = zs @ ''.md'' \<or> f = zs @ ''.txt''"
    by (auto simp: suffix_def)
  then have "last f = CHR ''d'' \<or> last f = CHR ''t''" by auto
  with f show False by simp
qed

lemma filter_items_by_keys:
  "distinct (map fst items) \<Longrightarrow>
   map fst (filter (\<lambda>(k, v). Q k \<and> R v) items)
     = filter (\<lambda>k. Q k \<and> (case map_of items k of None \<Rightarrow> False | Some v \<Rightarrow> R v))
         (map fst items)"
proof (induction items)
  case Nil
  then show ?case by simp
next
  case (Cons kv items)
  obtain k v where kv: "kv = (k, v)" by (cases kv)
  from Cons.prems kv have k: "k \<notin> set (map fst items)" and d: "distinct (map fst items)"
    by simp_all
  have "filter (\<lambda>k'. Q k' \<and> (case map_of (kv # items) k' of None \<Rightarrow> False | Some v' \<Rightarrow> R v'))
          (map fst items)
      = filter (\<lambda>k'. Q k' \<and> (case map_of items k' of None \<Rightarrow> False | Some v' \<Rightarrow> R v'))
          (map fst items)"
    using k kv by (intro filter_cong) auto
  with Cons.IH [OF d] kv show ?case by simp
qed

lemma get_files_keys:
  assumes "get_files_commits_and_dates w now a fs = Inr (ns', a')"
  shows "filter (\<lambda>k. k \<noteq> ''cache_time'') (dict_keys ns')
           = filter (\<lambda>k. k \<noteq> ''cache_time'')
               (dict_keys (cache_get (cache a) ''commits'')
                @ first_occurrences
                    (filter (\<lambda>f. f \<notin> set (dict_keys (cache_get (cache a) ''commits''))) fs))"
    and "set fs \<subseteq> set (dict_keys ns')"
    and "distinct (dict_keys (cache_get (cache a) ''commits'')) \<Longrightarrow> distinct (dict_keys ns')"
proof -
  let ?ns = "cache_get (cache a) ''commits''"
  from assms obtain c' ch' a1 where
    loop: "commits_loop w now (cached_time_of ?ns) (map_of (cache a) ''commits'' \<noteq> None) fs
             (?ns, False, a) = Inr (c', ch', a1)" and
    ch1: "ch' \<Longrightarrow> ns' = dict_set ''cache_time'' (Time now) c'" and
    nch: "\<not> ch' \<Longrightarrow> ns' = c' \<and> a' = a1"
    by (metis get_files_commits_and_dates_unfold)
  note keys = commits_loop_keys [OF loop]
  have k: "dict_keys ns' = dict_keys c' \<or> (''cache_time'' \<notin> set (dict_keys c')
      \<and> dict_keys ns' = dict_keys c' @ [''cache_time''])"
    using ch1 nch by (cases ch') (auto simp: dict_keys_dict_set)
  then have "filter (\<lambda>k. k \<noteq> ''cache_time'') (dict_keys ns')
      = filter (\<lambda>k. k \<noteq> ''cache_time'') (dict_keys c')"
    by auto
  with keys show "filter (\<lambda>k. k \<noteq> ''cache_time'') (dict_keys ns')
           = filter (\<lambda>k. k \<noteq> ''cache_time'')
               (dict_keys ?ns @ first_occurrences (filter (\<lambda>f. f \<notin> set (dict_keys ?ns)) fs))"
    by simp
  have "set fs \<subseteq> set (dict_keys c')"
    unfolding keys by (auto simp: set_first_occurrences)
  with k show "set fs \<subseteq> set (dict_keys ns')" by auto
  have fo: "distinct (first_occurrences xs)" for xs :: "string list"
    by (induction xs rule: first_occurrences.induct) (auto simp: set_first_occurrences)
  show "distinct (dict_keys ns')" if "distinct (dict_keys ?ns)"
  proof -
    from that have "distinct (dict_keys c')"
      unfolding keys by (auto simp: fo set_first_occurrences)
    with k show ?thesis by auto
  qed
qed

lemma demo_scan:
  "scan_local demo_world ''sources/syzkaller''
     = [''sources/syzkaller/setup.md'', ''sources/syzkaller/broken.md'']"
  by code_simp

lemma demo_broken:
  "extract_frontmatter demo_world ''sources/syzkaller/broken.md'' = Inr None"
  by (simp add: extract_frontmatter_def demo_world_def setup_text_def)

text \<open>
  C1 (amended). The claim says that the result holds stale paths of the scanned list
  only, in scan order. \<^verbatim>\<open>check_update\<close> iterates over the whole \<^verbatim>\<open>commits\<close>
  namespace returned by the batch, not over the scanned list: a record cached by an
  earlier run for a path that is not scanned now is reported when stale, and the order
  is the insertion order of the namespace (the counterexample below). What holds, for a
  run that returns: the result is exactly the keys of the returned namespace other than
  \<^verbatim>\<open>cache_time\<close> whose record is stale, in the order of the namespace; these keys are
  the keys cached before, in cached order, followed by the scanned paths that were not
  cached, in scan order; every scanned path is a key of the namespace. When the
  namespace starts empty and the scanned paths are distinct, the result is the stale
  paths of the scanned list in scan order.
\<close>

theorem check_update_reports:
  assumes "check_update w now a dir = Inr (out, a')"
  shows "\<exists>ns'. get_files_commits_and_dates w now a (scan_local w dir) = Inr (ns', a')
      \<and> out = map fst (filter (\<lambda>(k, v). k \<noteq> ''cache_time'' \<and> is_stale v) ns')
      \<and> filter (\<lambda>k. k \<noteq> ''cache_time'') (dict_keys ns')
          = filter (\<lambda>k. k \<noteq> ''cache_time'')
              (dict_keys (cache_get (cache a) ''commits'')
               @ first_occurrences
                   (filter (\<lambda>f. f \<notin> set (dict_keys (cache_get (cache a) ''commits'')))
                      (scan_local w dir)))
      \<and> set (scan_local w dir) \<subseteq> set (dict_keys ns')
      \<and> (cache_get (cache a) ''commits'' = [] \<and> distinct (scan_local w dir)
          \<longrightarrow> out = filter (\<lambda>f. case map_of ns' f of None \<Rightarrow> False | Some v \<Rightarrow> is_stale v)
                       (scan_local w dir))"
proof -
  let ?scan = "scan_local w dir"
  let ?ns = "cache_get (cache a) ''commits''"
  from assms obtain ns' where
    run: "get_files_commits_and_dates w now a ?scan = Inr (ns', a')" and
    upd: "update_loop ns' [] = Inr out"
    by (auto simp: check_update_def Let_def split: sum.splits prod.splits)
  from update_loop_Inr [OF upd]
  have out: "out = map fst (filter (\<lambda>(k, v). k \<noteq> ''cache_time'' \<and> is_stale v) ns')" by simp
  note keys = get_files_keys [OF run]
  have cold: "out = filter (\<lambda>f. case map_of ns' f of None \<Rightarrow> False | Some v \<Rightarrow> is_stale v) ?scan"
    if "?ns = [] \<and> distinct ?scan"
  proof -
    from that have e: "?ns = []" and d: "distinct ?scan" by simp_all
    from keys(3) e have dn: "distinct (map fst ns')" by (simp add: dict_keys_def)
    have nct: "filter (\<lambda>k. k \<noteq> ''cache_time'') ?scan = ?scan"
      using scan_local_not_cache_time by (auto intro: filter_True)
    from keys(1) e d have fk: "filter (\<lambda>k. k \<noteq> ''cache_time'') (map fst ns') = ?scan"
      by (simp add: dict_keys_def first_occurrences_distinct nct)
    have "out = filter (\<lambda>k. k \<noteq> ''cache_time''
                \<and> (case map_of ns' k of None \<Rightarrow> False | Some v \<Rightarrow> is_stale v)) (map fst ns')"
      unfolding out by (rule filter_items_by_keys [OF dn])
    also have "\<dots> = filter (\<lambda>k. case map_of ns' k of None \<Rightarrow> False | Some v \<Rightarrow> is_stale v)
                      (filter (\<lambda>k. k \<noteq> ''cache_time'') (map fst ns'))"
      by simp
    finally show ?thesis unfolding fk .
  qed
  from run out keys(1) keys(2) cold show ?thesis by blast
qed

lemma tidy_run:
  "check_update tidy_world 1000 (new_analyzer Absent) ''sources/syzkaller''
     = Inr ([''sources/syzkaller/setup.md''], demo_after)"
proof -
  have scan: "scan_local tidy_world ''sources/syzkaller'' = [''sources/syzkaller/setup.md'']"
    by code_simp
  show ?thesis
    unfolding check_update_def scan
    by (simp add: get_files_commits_and_dates_def new_analyzer_def load_cache_def cache_get_def
      cached_time_of_def dict_keys_def read_collected_date_def extract_frontmatter_def
      parse_collected_date_def tidy_world_def demo_world_def setup_text_def derive_record_def
      map_file_path_def get_file_commit_and_date_def commit_lookup_def ensure_repo_def
      save_cache_def Let_def demo_commits_def demo_after_def outdated_def store_record_def)
qed

theorem check_update_reports_witness:
  "check_update tidy_world 1000 (new_analyzer Absent) ''sources/syzkaller''
     = Inr ([''sources/syzkaller/setup.md''], demo_after)
   \<and> (\<exists>ns'. get_files_commits_and_dates tidy_world 1000 (new_analyzer Absent)
               (scan_local tidy_world ''sources/syzkaller'') = Inr (ns', demo_after)
          \<and> [''sources/syzkaller/setup.md'']
              = filter (\<lambda>f. case map_of ns' f of None \<Rightarrow> False | Some v \<Rightarrow> is_stale v)
                  (scan_local tidy_world ''sources/syzkaller''))"
proof -
  have scan: "scan_local tidy_world ''sources/syzkaller'' = [''sources/syzkaller/setup.md'']"
    by code_simp
  have cold: "cache_get (cache (new_analyzer Absent)) ''commits'' = []
      \<and> distinct (scan_local tidy_world ''sources/syzkaller'')"
    unfolding scan by (simp add: cache_get_def new_analyzer_def load_cache_def)
  from check_update_reports [OF tidy_run] obtain ns' where
    1: "get_files_commits_and_dates tidy_world 1000 (new_analyzer Absent)
               (scan_local tidy_world ''sources/syzkaller'') = Inr (ns', demo_after)" and
    2: "cache_get (cache (new_analyzer Absent)) ''commits'' = []
          \<and> distinct (scan_local tidy_world ''sources/syzkaller'')
        \<longrightarrow> [''sources/syzkaller/setup.md'']
              = filter (\<lambda>f. case map_of ns' f of None \<Rightarrow> False | Some v \<Rightarrow> is_stale v)
                  (scan_local tidy_world ''sources/syzkaller'')"
    by (elim exE conjE)
  from 2 cold have "[''sources/syzkaller/setup.md'']
              = filter (\<lambda>f. case map_of ns' f of None \<Rightarrow> False | Some v \<Rightarrow> is_stale v)
                  (scan_local tidy_world ''sources/syzkaller'')"
    by (rule mp)
  with 1 have "\<exists>ns'. get_files_commits_and_dates tidy_world 1000 (new_analyzer Absent)
               (scan_local tidy_world ''sources/syzkaller'') = Inr (ns', demo_after)
          \<and> [''sources/syzkaller/setup.md'']
              = filter (\<lambda>f. case map_of ns' f of None \<Rightarrow> False | Some v \<Rightarrow> is_stale v)
                  (scan_local tidy_world ''sources/syzkaller'')"
    by (intro exI conjI)
  with tidy_run show ?thesis by (rule conjI)
qed

theorem check_update_reports_counterexample:
  "scan_local demo_world ''sources/syzkaller''
     = [''sources/syzkaller/setup.md'', ''sources/syzkaller/broken.md'']
   \<and> ''sources/syzkaller/removed.md'' \<notin> set (scan_local demo_world ''sources/syzkaller'')
   \<and> check_update demo_world 2000 (new_analyzer demo_commit_cache) ''sources/syzkaller''
       = Inr ([''sources/syzkaller/broken.md'', ''sources/syzkaller/removed.md'',
               ''sources/syzkaller/setup.md''],
              new_analyzer demo_commit_cache)"
proof -
  have "check_update demo_world 2000 (new_analyzer demo_commit_cache) ''sources/syzkaller''
       = Inr ([''sources/syzkaller/broken.md'', ''sources/syzkaller/removed.md'',
               ''sources/syzkaller/setup.md''],
              new_analyzer demo_commit_cache)"
    unfolding check_update_def demo_scan
    by (simp add: get_files_commits_and_dates_def new_analyzer_def load_cache_def cache_get_def
      cached_time_of_def dict_keys_def demo_commit_cache_def cache_ttl_def outdated_def Let_def)
  then show ?thesis by (simp add: demo_scan)
qed

section \<open>Front matter without a usable date\<close>

lemma read_collected_date_exit:
  "extract_frontmatter w f = Inr h \<Longrightarrow> parse_collected_date w h = None \<Longrightarrow>
   read_collected_date w f = Inl (SystemExit 1)"
  by (simp add: read_collected_date_def)

lemma derive_record_exit:
  "read_collected_date w f = Inl e \<Longrightarrow>
   derive_record w al f (c, a) = Inl (e, with_placeholder al f c a)"
  by (simp add: derive_record_def with_placeholder_def split: prod.splits)

lemma commits_loop_append:
  "commits_loop w now ctv al (xs @ ys) s
     = (case commits_loop w now ctv al xs s of
          Inl ea \<Rightarrow> Inl ea
        | Inr s' \<Rightarrow> commits_loop w now ctv al ys s')"
proof (induction xs arbitrary: s)
  case Nil
  then show ?case by simp
next
  case (Cons x xs)
  obtain c ch a where s: "s = (c, ch, a)" by (cases s)
  show ?case
    unfolding s using Cons.IH
    by (simp split: sum.splits bool.splits prod.splits)
qed

lemma with_placeholder_keeps:
  "disk (with_placeholder al f c a) = disk a"
  "calls (with_placeholder al f c a) = calls a"
  "repo (with_placeholder al f c a) = repo a"
  "cache (with_placeholder al f c a)
     = (if al then dict_set ''commits'' (dict_set f (Partial None) c) (cache a) else cache a)"
  by (simp_all add: with_placeholder_def snd_store_record)

text \<open>
  C8 (amended). The claim says that any scanned file without a usable \<^verbatim>\<open>collected_date\<close>
  ends the process. The front matter of a file is only read when its record is derived
  again: a scanned file with no front matter whose record is cached and alive is skipped,
  and the check returns its result (the counterexample below). What holds: let a scanned
  file need a refresh (it is not a key of the \<^verbatim>\<open>commits\<close> namespace, or the namespace
  is older than the time to live) and have no front matter, or front matter without a
  \<^verbatim>\<open>collected_date\<close> that parses, and let the files scanned before it, none of which
  is this file, be processed without an exception. Then the batch lookup and
  \<^verbatim>\<open>check_update\<close> end with \<^verbatim>\<open>sys.exit(1)\<close> at that file, whatever files come
  after it in scan order, and no result is returned. The analyzer is then as it was
  after the files before it, but for the empty placeholder of this file, which line 110
  has put in the namespace (seen in \<^verbatim>\<open>self._cache\<close> when the namespace was present on
  entry): no request has been sent for this file or a later one, and the cache file is
  as it was before the batch.
\<close>

theorem unusable_date_exits:
  assumes "cached_time_of (cache_get (cache a) ''commits'') = Time t"
    and "scan_local w dir = pre @ f # post"
    and "commits_loop w now (Time t) (map_of (cache a) ''commits'' \<noteq> None) pre
           (cache_get (cache a) ''commits'', False, a) = Inr (c1, ch1, a1)"
    and "needs_refresh now t (cache_get (cache a) ''commits'') f"
    and "f \<notin> set pre"
    and "extract_frontmatter w f = Inr h"
    and "parse_collected_date w h = None"
  shows "get_files_commits_and_dates w now a (pre @ f # post)
           = Inl (SystemExit 1, with_placeholder (map_of (cache a) ''commits'' \<noteq> None) f c1 a1)
       \<and> check_update w now a dir
           = Inl (SystemExit 1, with_placeholder (map_of (cache a) ''commits'' \<noteq> None) f c1 a1)
       \<and> calls (with_placeholder (map_of (cache a) ''commits'' \<noteq> None) f c1 a1) = calls a1
       \<and> disk (with_placeholder (map_of (cache a) ''commits'' \<noteq> None) f c1 a1) = disk a
       \<and> cache (with_placeholder (map_of (cache a) ''commits'' \<noteq> None) f c1 a1)
           = (if map_of (cache a) ''commits'' \<noteq> None
              then dict_set ''commits'' (dict_set f (Partial None) c1) (cache a1)
              else cache a1)"
proof -
  let ?al = "map_of (cache a) ''commits'' \<noteq> None"
  let ?ns = "cache_get (cache a) ''commits''"
  from read_collected_date_exit [OF assms(6,7)]
  have bad: "read_collected_date w f = Inl (SystemExit 1)" .
  from commits_loop_keys [OF assms(3)]
  have "set (dict_keys c1) \<subseteq> set (dict_keys ?ns) \<union> set pre"
    by (auto simp: set_first_occurrences)
  with assms(4,5) have need: "needs_refresh now t c1 f"
    by (auto simp: needs_refresh_def)
  have "commits_loop w now (Time t) ?al (pre @ f # post) (?ns, False, a)
      = (case commits_loop w now (Time t) ?al pre (?ns, False, a) of
           Inl ea \<Rightarrow> Inl ea
         | Inr s' \<Rightarrow> commits_loop w now (Time t) ?al (f # post) s')"
    by (rule commits_loop_append)
  also have "\<dots> = commits_loop w now (Time t) ?al (f # post) (c1, ch1, a1)"
    by (simp only: assms(3) sum.case)
  also have "\<dots> = Inl (SystemExit 1, with_placeholder ?al f c1 a1)"
    by (simp only: commits_loop_derive [OF need] derive_record_exit [OF bad] sum.case)
  finally have "get_files_commits_and_dates w now a (pre @ f # post)
      = Inl (SystemExit 1, with_placeholder ?al f c1 a1)"
    using assms(1) by (simp add: get_files_commits_and_dates_def)
  moreover from this assms(2) have "check_update w now a dir
      = Inl (SystemExit 1, with_placeholder ?al f c1 a1)"
    by (simp add: check_update_def)
  moreover have "disk (with_placeholder ?al f c1 a1) = disk a"
    using commits_loop_disk [OF assms(3)] by (simp add: with_placeholder_keeps)
  ultimately show ?thesis by (simp add: with_placeholder_keeps)
qed

lemma late_scan:
  "scan_local late_world ''sources/syzkaller''
     = [''sources/syzkaller/setup.md''] @ ''sources/syzkaller/broken.md''
         # [''sources/syzkaller/later.md'']"
  by code_simp

lemma late_pre:
  "commits_loop late_world 1000 (Time 0) (map_of (cache (new_analyzer Absent)) ''commits'' \<noteq> None)
     [''sources/syzkaller/setup.md'']
     (cache_get (cache (new_analyzer Absent)) ''commits'', False, new_analyzer Absent)
   = Inr ([(''sources/syzkaller/setup.md'',
             CommitRecord (Some ''abc123'', Some ''2024-12-24 10:00:00'')
                          (Some ''def456'', Some ''2025-06-01 09:30:00''))], True, demo_exit)"
  by (simp add: new_analyzer_def load_cache_def cache_get_def dict_keys_def
      read_collected_date_def extract_frontmatter_def parse_collected_date_def late_world_def
      demo_world_def setup_text_def derive_record_def map_file_path_def store_record_def
      get_file_commit_and_date_def commit_lookup_def ensure_repo_def Let_def demo_exit_def)

theorem unusable_date_exits_witness:
  "scan_local late_world ''sources/syzkaller''
     = [''sources/syzkaller/setup.md''] @ ''sources/syzkaller/broken.md''
         # [''sources/syzkaller/later.md'']
   \<and> extract_frontmatter late_world ''sources/syzkaller/broken.md'' = Inr None
   \<and> read_text late_world ''sources/syzkaller/later.md'' = Inl OSError
   \<and> check_update late_world 1000 (new_analyzer Absent) ''sources/syzkaller''
       = Inl (SystemExit 1, demo_exit)
   \<and> disk demo_exit = disk (new_analyzer Absent)"
proof -
  have t: "cached_time_of (cache_get (cache (new_analyzer Absent)) ''commits'') = Time 0"
    by (simp add: cached_time_of_def cache_get_def new_analyzer_def load_cache_def)
  have need: "needs_refresh 1000 0 (cache_get (cache (new_analyzer Absent)) ''commits'')
      ''sources/syzkaller/broken.md''"
    by (simp add: needs_refresh_def cache_get_def new_analyzer_def load_cache_def dict_keys_def)
  have first: "''sources/syzkaller/broken.md'' \<notin> set [''sources/syzkaller/setup.md'']"
    by simp
  have broken: "extract_frontmatter late_world ''sources/syzkaller/broken.md'' = Inr None"
    by (simp add: extract_frontmatter_def late_world_def demo_world_def setup_text_def)
  have none: "parse_collected_date late_world None = None"
    by (simp add: parse_collected_date_def)
  have later: "read_text late_world ''sources/syzkaller/later.md'' = Inl OSError"
    by (simp add: late_world_def demo_world_def)
  have al: "\<not> (map_of (cache (new_analyzer Absent)) ''commits'' \<noteq> None)"
    by (simp add: new_analyzer_def load_cache_def)
  have ex: "with_placeholder (map_of (cache (new_analyzer Absent)) ''commits'' \<noteq> None)
      ''sources/syzkaller/broken.md''
      [(''sources/syzkaller/setup.md'',
             CommitRecord (Some ''abc123'', Some ''2024-12-24 10:00:00'')
                          (Some ''def456'', Some ''2025-06-01 09:30:00''))] demo_exit = demo_exit"
    using al by (simp add: with_placeholder_def snd_store_record)
  note inst = unusable_date_exits [OF t late_scan late_pre need first broken none]
  from inst have 1: "check_update late_world 1000 (new_analyzer Absent) ''sources/syzkaller''
       = Inl (SystemExit 1, demo_exit)"
    unfolding ex by (elim conjE)
  from inst have 2: "disk demo_exit = disk (new_analyzer Absent)"
    unfolding ex by (elim conjE)
  from late_scan broken later 1 2 show ?thesis by (intro conjI)
qed

theorem unusable_date_exits_counterexample:
  "''sources/syzkaller/broken.md'' \<in> set (scan_local demo_world ''sources/syzkaller'')
   \<and> extract_frontmatter demo_world ''sources/syzkaller/broken.md'' = Inr None
   \<and> check_update demo_world 2000 (new_analyzer demo_commit_cache) ''sources/syzkaller''
       = Inr ([''sources/syzkaller/broken.md'', ''sources/syzkaller/removed.md'',
               ''sources/syzkaller/setup.md''],
              new_analyzer demo_commit_cache)"
proof -
  have "check_update demo_world 2000 (new_analyzer demo_commit_cache) ''sources/syzkaller''
       = Inr ([''sources/syzkaller/broken.md'', ''sources/syzkaller/removed.md'',
               ''sources/syzkaller/setup.md''],
              new_analyzer demo_commit_cache)"
    unfolding check_update_def demo_scan
    by (simp add: get_files_commits_and_dates_def new_analyzer_def load_cache_def cache_get_def
      cached_time_of_def dict_keys_def demo_commit_cache_def cache_ttl_def outdated_def Let_def)
  with demo_broken show ?thesis by (simp add: demo_scan)
qed

end
